theory Spec2Isabelle
  imports Complex_Main "HOL-Library.AList" "HOL-Library.Char_ord" "HOL-Library.List_Lexorder"
begin

section \<open>Data model of the graph manager\<close>

text \<open>
  The embedding follows \<^verbatim>\<open>shub_workflow/graph/__init__.py\<close> (class GraphManager).
  A Python dict is an association list: \<^const>\<open>map_of\<close> reads a key,
  \<^const>\<open>AList.update\<close> stores one (an existing key keeps its position, a new key
  goes last, as in an insertion-ordered dict), \<^const>\<open>AList.delete\<close> removes one.
  A dict has each key once; the lists of well-formed states have distinct keys.
  Amounts and times are exact rationals (Fraction in the source).
\<close>

type_synonym resource_set = "(string \<times> rat) list"

text \<open>
  One entry of \<^verbatim>\<open>jobs_graph\<close>. A key whose absence the code can tell from a
  default is an option (\<^verbatim>\<open>command\<close>, \<^verbatim>\<open>retry_args\<close>,
  \<^verbatim>\<open>wait_for\<close>, \<^verbatim>\<open>wait_time\<close>, \<^verbatim>\<open>parallel_arg\<close>);
  the other keys are only ever read through \<^verbatim>\<open>get(key, default)\<close>, so an absent
  key is its default (\<^verbatim>\<open>init_args\<close> [], \<^verbatim>\<open>required_resources\<close> [],
  \<^verbatim>\<open>retries\<close> 0, \<^verbatim>\<open>on_finish\<close> {}).
\<close>

record jobconf =
  command :: "string option"
  init_args :: "string list"
  retry_args :: "string list option"
  tags :: "string list option"
  units :: "int option"
  project_id :: "string option"
  required_resources :: "resource_set list"
  wait_for :: "string list option"
  wait_time :: "rat option"
  retries :: int
  on_finish :: "(string \<times> string list) list"
  parallel_arg :: "string option"

text \<open>A value of \<^verbatim>\<open>__pending_jobs\<close>; \<^verbatim>\<open>origin\<close> is present on fan-out units only.\<close>

record pending_job =
  pj_wait_for :: "string set"
  pj_retries :: int
  pj_required_resources :: "resource_set list"
  pj_origin :: "string option"
  pj_wait_time :: "rat option"

text \<open>
  Every way the code leaves a method other than by returning:
  \<^verbatim>\<open>argparser.error\<close> in \<^verbatim>\<open>get_job\<close> (it exits the process), a KeyError of a dict
  read, the TypeError of \<^verbatim>\<open>range(None)\<close>, an exception of the backend, and the
  RuntimeError of a dependency cycle with the (job, sorted wait_for) pairs of its message.
\<close>

datatype error =
    InvalidJob string
  | KeyError string
  | TypeError
  | BackendError string
  | DependencyCycle "(string \<times> string list) list"

text \<open>
  The manager instance. \<^verbatim>\<open>running_jobs\<close> maps a job to whatever
  \<^verbatim>\<open>run_job\<close> returned, which is None when no job id came back.
  \<^verbatim>\<open>world\<close> is the state of everything outside the process (backend, clock).
\<close>

record 'w manager =
  jobs_graph :: "(string \<times> jobconf) list"
  pending_jobs :: "(string \<times> pending_job) list"
  running_jobs :: "(string \<times> string option) list"
  available_resources :: "(string \<times> rat) list"
  acquired_resources :: "(string \<times> (string \<times> rat) list) list"
  failed_outcomes :: "string list"
  start_time :: rat
  parallelization :: "int option"
  max_running_jobs :: "int option"
  only_starting_jobs :: bool
  world :: 'w

text \<open>A loop over a list whose body may raise: the first error ends it.\<close>

fun foldE :: "('a \<Rightarrow> 's \<Rightarrow> error + 's) \<Rightarrow> 'a list \<Rightarrow> 's \<Rightarrow> error + 's" where
  "foldE f [] s = Inr s"
| "foldE f (x # xs) s = (case f x s of Inl e \<Rightarrow> Inl e | Inr s' \<Rightarrow> foldE f xs s')"

section \<open>The resource ledger\<close>

text \<open>\<^verbatim>\<open>available.get(res_name, 0)\<close>.\<close>

definition amount_available :: "(string \<times> rat) list \<Rightarrow> string \<Rightarrow> rat" where
  "amount_available av res_name = (case map_of av res_name of None \<Rightarrow> 0 | Some v \<Rightarrow> v)"

text \<open>\<^verbatim>\<open>acquired[res_name]\<close> of the defaultdict: the empty list for a missing key.\<close>

definition acquired_by :: "(string \<times> (string \<times> rat) list) list \<Rightarrow> string \<Rightarrow> (string \<times> rat) list" where
  "acquired_by acq res_name = (case map_of acq res_name of None \<Rightarrow> [] | Some l \<Rightarrow> l)"

text \<open>The innermost body of \<^verbatim>\<open>_fill_available_resources\<close> (lines 121-127).\<close>

definition fill_item :: "string \<times> rat \<Rightarrow> (string \<times> rat) list \<Rightarrow> (string \<times> rat) list" where
  "fill_item item av =
     (let old_amount = amount_available av (fst item)
      in if old_amount < snd item then AList.update (fst item) (snd item) av else av)"

text \<open>\<^verbatim>\<open>_fill_available_resources\<close>: jobs, their resource sets, the items of a set, in order.\<close>

definition fill_available_resources :: "'w manager \<Rightarrow> 'w manager" where
  "fill_available_resources s =
     s\<lparr>available_resources :=
         fold (\<lambda>job_entry. fold (\<lambda>rs. fold fill_item rs) (required_resources (snd job_entry)))
           (jobs_graph s) (available_resources s)\<rparr>"

text \<open>
  The first inner loop of \<^verbatim>\<open>_try_acquire_resources\<close> (lines 393-396): False at the first
  resource with less available than asked, a KeyError at a resource that
  \<^verbatim>\<open>_available_resources\<close> does not hold, True when the loop ends without a break.
\<close>

fun sufficient :: "(string \<times> rat) list \<Rightarrow> resource_set \<Rightarrow> error + bool" where
  "sufficient av [] = Inr True"
| "sufficient av ((res_name, res_amount) # rest) =
     (case map_of av res_name of
        None \<Rightarrow> Inl (KeyError res_name)
      | Some v \<Rightarrow> if v < res_amount then Inr False else sufficient av rest)"

text \<open>
  The \<^verbatim>\<open>else\<close> of that loop (lines 398-400). Every key was read by the loop before, so
  \<^verbatim>\<open>-=\<close> finds it; the defaultdict creates a missing list.
\<close>

fun take_resources :: "string \<Rightarrow> resource_set \<Rightarrow> 'w manager \<Rightarrow> 'w manager" where
  "take_resources job [] s = s"
| "take_resources job ((res_name, res_amount) # rest) s =
     take_resources job rest
       (s\<lparr>available_resources :=
             AList.map_entry res_name (\<lambda>v. v - res_amount) (available_resources s),
           acquired_resources :=
             AList.map_default res_name [(job, res_amount)] (\<lambda>l. l @ [(job, res_amount)])
               (acquired_resources s)\<rparr>)"

text \<open>The outer loop of \<^verbatim>\<open>_try_acquire_resources\<close>, with its variable \<^verbatim>\<open>result\<close>.\<close>

fun try_sets :: "string \<Rightarrow> bool \<Rightarrow> resource_set list \<Rightarrow> 'w manager \<Rightarrow> error + (bool \<times> 'w manager)" where
  "try_sets job result [] s = Inr (result, s)"
| "try_sets job result (resources # rest) s =
     (case sufficient (available_resources s) resources of
        Inl e \<Rightarrow> Inl e
      | Inr True \<Rightarrow> Inr (True, take_resources job resources s)
      | Inr False \<Rightarrow> try_sets job False rest s)"

text \<open>\<^verbatim>\<open>_try_acquire_resources\<close>; \<^verbatim>\<open>get_job\<close> exits on a job that is not in the graph.\<close>

definition try_acquire_resources :: "string \<Rightarrow> 'w manager \<Rightarrow> error + (bool \<times> 'w manager)" where
  "try_acquire_resources job s =
     (case map_of (jobs_graph s) job of
        None \<Rightarrow> Inl (InvalidJob job)
      | Some conf \<Rightarrow> try_sets job True (required_resources conf) s)"

text \<open>
  The inner loop of \<^verbatim>\<open>_release_resources\<close> (lines 406-409) for one resource. The list
  is changed while it is iterated: Python's list iterator holds an index \<open>i\<close>, yields
  element \<open>i\<close> while \<open>i\<close> is below the current length, and \<^verbatim>\<open>remove\<close> deletes the first
  element equal to the tuple. \<open>v\<close> is the available amount of the resource.
\<close>

function release_scan :: "string \<Rightarrow> nat \<Rightarrow> (string \<times> rat) list \<Rightarrow> rat \<Rightarrow> (string \<times> rat) list \<times> rat" where
  "release_scan job i acquired v =
     (if i < length acquired then
        (if fst (acquired ! i) = job
         then release_scan job (Suc i) (remove1 (acquired ! i) acquired) (v + snd (acquired ! i))
         else release_scan job (Suc i) acquired v)
      else (acquired, v))"
  by pat_completeness auto
termination
  by (relation "measure (\<lambda>(job, i, acquired, v). length acquired - i)")
     (auto simp: length_remove1)

declare release_scan.simps [simp del]

text \<open>
  One round of the outer loop of \<^verbatim>\<open>_release_resources\<close>. The available amount is
  read (and a missing key raises) only when an entry of the job is met.
\<close>

definition release_one :: "string \<Rightarrow> string \<Rightarrow> 'w manager \<Rightarrow> error + 'w manager" where
  "release_one job res_name s =
     (let acquired = acquired_by (acquired_resources s) res_name in
      if list_ex (\<lambda>e. fst e = job) acquired then
        (case map_of (available_resources s) res_name of
           None \<Rightarrow> Inl (KeyError res_name)
         | Some v \<Rightarrow>
             (case release_scan job 0 acquired v of
                (acquired', v') \<Rightarrow>
                  Inr (s\<lparr>available_resources := AList.update res_name v' (available_resources s),
                         acquired_resources := AList.update res_name acquired' (acquired_resources s)\<rparr>)))
      else Inr s)"

text \<open>\<^verbatim>\<open>_release_resources\<close>: the keys of \<^verbatim>\<open>_acquired_resources\<close> in order.\<close>

definition release_resources :: "string \<Rightarrow> 'w manager \<Rightarrow> error + 'w manager" where
  "release_resources job s = foldE (release_one job) (map fst (acquired_resources s)) s"

section \<open>Adding a pending job; the parallel fan-out\<close>

text \<open>\<^verbatim>\<open>'%d' % i\<close> and \<^verbatim>\<open>'%i' % i\<close> for a number of \<^verbatim>\<open>range\<close>: its decimal digits.\<close>

definition digit_char :: "nat \<Rightarrow> char" where
  "digit_char d = char_of (48 + d)"

function string_of_nat :: "nat \<Rightarrow> string" where
  "string_of_nat n =
     (if n < 10 then [digit_char n] else string_of_nat (n div 10) @ [digit_char (n mod 10)])"
  by pat_completeness auto
termination
  by (relation "measure id") auto

declare string_of_nat.simps [simp del]

text \<open>\<^verbatim>\<open>"%s_%i" % (job, i)\<close>.\<close>

definition unit_name :: "string \<Rightarrow> nat \<Rightarrow> string" where
  "unit_name job i = job @ ''_'' @ string_of_nat i"

text \<open>\<^verbatim>\<open>parallel_arg.replace('%d', d)\<close>: every occurrence, left to right, without overlap.\<close>

fun replace_percent_d :: "string \<Rightarrow> string \<Rightarrow> string" where
  "replace_percent_d d (c1 # c2 # cs) =
     (if c1 = CHR ''%'' \<and> c2 = CHR ''d'' then d @ replace_percent_d d cs
      else c1 # replace_percent_d d (c2 # cs))"
| "replace_percent_d d cs = cs"

text \<open>Lines 153-171: \<^verbatim>\<open>Fraction(res_amount, self.parallelization)\<close> for every amount of every set.\<close>

definition split_resources :: "int \<Rightarrow> resource_set list \<Rightarrow> resource_set list" where
  "split_resources n sets = map (map (\<lambda>item. (fst item, snd item / of_int n))) sets"

text \<open>
  Lines 185-189, the successor that is not in the graph. The unit names are built from
  \<^verbatim>\<open>job\<close>, the task being expanded, as the source has it, and \<^verbatim>\<open>get_job\<close> exits on a
  name that is not in the graph. \<^verbatim>\<open>get('wait_for', []).append\<close> changes a list that is
  there and nothing otherwise. (The loop reuses the name \<^verbatim>\<open>i\<close> of the outer loop; the
  outer loop reads \<^verbatim>\<open>i\<close> again only in \<^verbatim>\<open>i != 0\<close>, which holds before and after.)
\<close>

fun wait_in_units :: "string \<Rightarrow> string \<Rightarrow> nat list \<Rightarrow> 'w manager \<Rightarrow> error + 'w manager" where
  "wait_in_units job job_unit [] s = Inr s"
| "wait_in_units job job_unit (i # rest) s =
     (let nextjobp = unit_name job i in
      case map_of (jobs_graph s) nextjobp of
        None \<Rightarrow> Inl (InvalidJob nextjobp)
      | Some _ \<Rightarrow>
          wait_in_units job job_unit rest
            (s\<lparr>jobs_graph :=
                  AList.map_entry nextjobp
                    (\<lambda>c. c\<lparr>wait_for := map_option (\<lambda>l. l @ [job_unit]) (wait_for c)\<rparr>) (jobs_graph s),
                pending_jobs :=
                  AList.map_entry nextjobp
                    (\<lambda>p. p\<lparr>pj_wait_for := insert job_unit (pj_wait_for p)\<rparr>) (pending_jobs s)\<rparr>))"

text \<open>
  Lines 179-189 for one successor of a unit other than unit 0: what happens to the graph
  and the pending map (line 190 removes the successor from the unit's own copy of the
  list, see \<open>unit_conf\<close>).
\<close>

definition detach_successor :: "string \<Rightarrow> string \<Rightarrow> nat \<Rightarrow> string \<Rightarrow> 'w manager \<Rightarrow> error + 'w manager" where
  "detach_successor job job_unit n nextjob s =
     (if nextjob = ''retry'' then Inr s
      else if nextjob \<in> fst ` set (jobs_graph s) then
        Inr (s\<lparr>jobs_graph :=
                  AList.map_entry nextjob
                    (\<lambda>c. c\<lparr>wait_for := Some ((case wait_for c of None \<Rightarrow> [] | Some l \<Rightarrow> l) @ [job_unit])\<rparr>)
                    (jobs_graph s),
                pending_jobs :=
                  AList.map_entry nextjob
                    (\<lambda>p. p\<lparr>pj_wait_for := insert job_unit (pj_wait_for p)\<rparr>) (pending_jobs s)\<rparr>)
      else wait_in_units job job_unit [0..<n] s)"

text \<open>
  The configuration of unit \<open>i\<close> (lines 151-175 and 190): a deep copy of the base
  configuration with the split resources, the parallel argument appended to
  \<^verbatim>\<open>init_args\<close> and to \<^verbatim>\<open>retry_args\<close> when present, and, for \<open>i \<noteq> 0\<close>, only
  \<^verbatim>\<open>'retry'\<close> left in every \<^verbatim>\<open>on_finish\<close> list. (\<^verbatim>\<open>init_args\<close> and
  \<^verbatim>\<open>retry_args\<close> are taken to be two list objects.)
\<close>

definition unit_conf :: "jobconf \<Rightarrow> int \<Rightarrow> string \<Rightarrow> nat \<Rightarrow> jobconf" where
  "unit_conf basejobconf n parallel_arg_template i =
     (let parg = replace_percent_d (string_of_nat i) parallel_arg_template in
      basejobconf
        \<lparr>required_resources := split_resources n (required_resources basejobconf),
         init_args := init_args basejobconf @ [parg],
         retry_args := map_option (\<lambda>l. l @ [parg]) (retry_args basejobconf),
         on_finish :=
           (if i \<noteq> 0
            then map (\<lambda>entry. (fst entry, filter (\<lambda>nextjob. nextjob = ''retry'') (snd entry)))
                   (on_finish basejobconf)
            else on_finish basejobconf)\<rparr>)"

text \<open>The loop over the units (lines 148-199).\<close>

fun expand_units ::
  "string \<Rightarrow> jobconf \<Rightarrow> int \<Rightarrow> string \<Rightarrow> string list \<Rightarrow> int \<Rightarrow> nat list \<Rightarrow> 'w manager \<Rightarrow> error + 'w manager" where
  "expand_units job basejobconf n parg_template wait_for_arg retries_arg [] s = Inr s"
| "expand_units job basejobconf n parg_template wait_for_arg retries_arg (i # rest) s =
     (let job_unit = unit_name job i;
          job_unit_conf = unit_conf basejobconf n parg_template i in
      case (if i \<noteq> 0
            then foldE (detach_successor job job_unit (nat n))
                   (concat (map snd (on_finish basejobconf))) s
            else Inr s) of
        Inl e \<Rightarrow> Inl e
      | Inr s1 \<Rightarrow>
          expand_units job basejobconf n parg_template wait_for_arg retries_arg rest
            (s1\<lparr>jobs_graph := AList.update job_unit job_unit_conf (jobs_graph s1),
                pending_jobs :=
                  AList.update job_unit
                    \<lparr>pj_wait_for = set wait_for_arg,
                     pj_retries = retries_arg,
                     pj_required_resources = required_resources job_unit_conf,
                     pj_origin = Some job,
                     pj_wait_time = wait_time basejobconf\<rparr>
                    (pending_jobs s1)\<rparr>))"

text \<open>Lines 200-209 for one entry of the graph: the edge to the task becomes edges to its units.\<close>

definition relink :: "string \<Rightarrow> nat \<Rightarrow> string \<Rightarrow> 'w manager \<Rightarrow> 'w manager" where
  "relink job n other s =
     (case map_of (jobs_graph s) other of
        None \<Rightarrow> s
      | Some oconf \<Rightarrow>
          (case wait_for oconf of
             None \<Rightarrow> s
           | Some l \<Rightarrow>
               if job \<in> set l then
                 s\<lparr>jobs_graph :=
                     AList.map_entry other
                       (\<lambda>c. c\<lparr>wait_for := Some (remove1 job l @ map (unit_name job) [0..<n])\<rparr>)
                       (jobs_graph s),
                   pending_jobs :=
                     AList.map_entry other
                       (\<lambda>p. p\<lparr>pj_wait_for :=
                                 (pj_wait_for p - {job}) \<union> set (map (unit_name job) [0..<n])\<rparr>)
                       (pending_jobs s)\<rparr>
               else s))"

text \<open>
  \<^verbatim>\<open>_add_pending_job(job, wait_for, retries)\<close>. \<^verbatim>\<open>pop('parallel_arg', None)\<close> removes
  the key from the graph's entry; a template that is None or empty takes the
  \<^verbatim>\<open>else\<close> branch.
\<close>

definition add_pending_job :: "string \<Rightarrow> string list \<Rightarrow> int \<Rightarrow> 'w manager \<Rightarrow> error + 'w manager" where
  "add_pending_job job wait_for_arg retries_arg s =
     (case map_of (jobs_graph s) job of
        None \<Rightarrow> Inl (InvalidJob job)
      | Some conf \<Rightarrow>
          (let basejobconf = conf\<lparr>parallel_arg := None\<rparr>;
               s1 = s\<lparr>jobs_graph := AList.map_entry job (\<lambda>c. c\<lparr>parallel_arg := None\<rparr>) (jobs_graph s)\<rparr>
           in case parallel_arg conf of
                Some (c # cs) \<Rightarrow>
                  (let s2 = s1\<lparr>jobs_graph := AList.delete job (jobs_graph s1)\<rparr> in
                   case parallelization s of
                     None \<Rightarrow> Inl TypeError
                   | Some n \<Rightarrow>
                       (case expand_units job basejobconf n (c # cs) wait_for_arg retries_arg
                               [0..<nat n] s2 of
                          Inl e \<Rightarrow> Inl e
                        | Inr s3 \<Rightarrow> Inr (fold (relink job (nat n)) (map fst (jobs_graph s3)) s3)))
              | _ \<Rightarrow>
                  Inr (s1\<lparr>pending_jobs :=
                            AList.update job
                              \<lparr>pj_wait_for = set wait_for_arg,
                               pj_retries = retries_arg,
                               pj_required_resources = required_resources conf,
                               pj_origin = None,
                               pj_wait_time = wait_time conf\<rparr>
                              (pending_jobs s1)\<rparr>)))"

text \<open>\<^verbatim>\<open>_add_initial_pending_job\<close>.\<close>

definition add_initial_pending_job :: "string \<Rightarrow> 'w manager \<Rightarrow> error + 'w manager" where
  "add_initial_pending_job job s =
     (case map_of (jobs_graph s) job of
        None \<Rightarrow> Inl (InvalidJob job)
      | Some conf \<Rightarrow> add_pending_job job (case wait_for conf of None \<Rightarrow> [] | Some l \<Rightarrow> l) 0 s)"

section \<open>Running jobs on the backend\<close>

text \<open>
  What the manager calls outside this file, as parameters: \<^verbatim>\<open>schedule_script\<close> and
  \<^verbatim>\<open>is_finished\<close> of the base class, \<^verbatim>\<open>time()\<close>, and the \<^verbatim>\<open>run\<close> method of the
  task objects of \<^verbatim>\<open>__tasks\<close> (None for a job that has no task object). Each takes the
  state of the world and returns the new one; scheduling may raise, and the world it
  leaves is returned also then. \<^verbatim>\<open>time()\<close> is a float, and so are the difference and the
  sum \<^verbatim>\<open>_must_wait_time\<close> computes with it: every float is a rational number, and the
  rounded subtraction and addition of floats are the parameters \<open>float_sub\<close> and
  \<open>float_add\<close> (their rounding is not modelled).
\<close>

record 'w backend =
  schedule_script ::
    "'w \<Rightarrow> string list \<Rightarrow> string list option \<Rightarrow> int option \<Rightarrow> string option \<Rightarrow> (error + string option) \<times> 'w"
  is_finished :: "'w \<Rightarrow> string option \<Rightarrow> string option \<times> 'w"
  time_now :: "'w \<Rightarrow> rat \<times> 'w"
  float_sub :: "rat \<Rightarrow> rat \<Rightarrow> rat"
  float_add :: "rat \<Rightarrow> rat \<Rightarrow> rat"
  task_run :: "string \<Rightarrow> ('w \<Rightarrow> int \<Rightarrow> (error + string option) \<times> 'w) option"

text \<open>\<^verbatim>\<open>get_command_line\<close>; \<^verbatim>\<open>jobconf['command']\<close> raises when the key is missing.\<close>

definition get_command_line :: "jobconf \<Rightarrow> int \<Rightarrow> error + string list" where
  "get_command_line jobconf retries_arg =
     (case command jobconf of
        None \<Rightarrow> Inl (KeyError ''command'')
      | Some cmd \<Rightarrow>
          (let retry = (case retry_args jobconf of None \<Rightarrow> init_args jobconf | Some l \<Rightarrow> l) in
           if retries_arg \<noteq> 0 then Inr (cmd # retry) else Inr (cmd # init_args jobconf)))"

text \<open>
  \<^verbatim>\<open>run_job\<close>: what it returns or raises, and the manager it leaves in either case. It
  returns the job id when \<^verbatim>\<open>schedule_script\<close> gave a true value and falls off its end
  otherwise, which returns None.
\<close>

definition run_job :: "'w backend \<Rightarrow> string \<Rightarrow> int \<Rightarrow> 'w manager \<Rightarrow> (error + string option) \<times> 'w manager" where
  "run_job B job retries_arg s =
     (case task_run B job of
        Some run \<Rightarrow>
          (case run (world s) retries_arg of
             (result, w) \<Rightarrow> (result, s\<lparr>world := w\<rparr>))
      | None \<Rightarrow>
          (case map_of (jobs_graph s) job of
             None \<Rightarrow> (Inl (InvalidJob job), s)
           | Some jobconf \<Rightarrow>
               (case get_command_line jobconf retries_arg of
                  Inl e \<Rightarrow> (Inl e, s)
                | Inr cmd \<Rightarrow>
                    (case schedule_script B (world s) cmd (tags jobconf) (units jobconf)
                            (project_id jobconf) of
                       (Inl e, w) \<Rightarrow> (Inl e, s\<lparr>world := w\<rparr>)
                     | (Inr jobid, w) \<Rightarrow>
                         (Inr (if jobid = None \<or> jobid = Some [] then None else jobid),
                          s\<lparr>world := w\<rparr>)))))"

text \<open>
  \<^verbatim>\<open>_must_wait_time\<close> for the pending record of the job; the clock is read only for a
  timer. Line 289 is \<^verbatim>\<open>conf['wait_time'] - time() + self.__start_time\<close> in floats.
\<close>

definition must_wait_time :: "'w backend \<Rightarrow> pending_job \<Rightarrow> 'w manager \<Rightarrow> bool \<times> 'w manager" where
  "must_wait_time B conf s =
     (case pj_wait_time conf of
        None \<Rightarrow> (False, s)
      | Some t \<Rightarrow>
          (case time_now B (world s) of
             (now, w) \<Rightarrow>
               (float_add B (float_sub B t now) (start_time s) > 0, s\<lparr>world := w\<rparr>)))"

text \<open>
  \<^verbatim>\<open>len(self.__running_jobs) >= max_running_jobs\<close>, where
  \<^verbatim>\<open>max_running_jobs = self.args.max_running_jobs or float('inf')\<close>.
\<close>

definition at_max_running :: "'w manager \<Rightarrow> bool" where
  "at_max_running s =
     (case max_running_jobs s of
        None \<Rightarrow> False
      | Some m \<Rightarrow> m \<noteq> 0 \<and> m \<le> int (length (running_jobs s)))"

text \<open>
  \<^verbatim>\<open>_release_resources\<close> once more, with the manager it leaves when it raises: a round
  raises at its first read of \<^verbatim>\<open>_available_resources\<close>, before it has changed
  anything, so that manager is the one the rounds before it left.
\<close>

fun fold_until_error :: "('a \<Rightarrow> 's \<Rightarrow> error + 's) \<Rightarrow> 'a list \<Rightarrow> 's \<Rightarrow> error option \<times> 's" where
  "fold_until_error f [] s = (None, s)"
| "fold_until_error f (x # xs) s =
     (case f x s of Inl e \<Rightarrow> (Some e, s) | Inr s' \<Rightarrow> fold_until_error f xs s')"

definition released :: "string \<Rightarrow> 'w manager \<Rightarrow> error option \<times> 'w manager" where
  "released job s = fold_until_error (release_one job) (map fst (acquired_resources s)) s"

text \<open>
  Lines 317-323 and 343-349. When \<^verbatim>\<open>run_job\<close> returns, the job moves from pending to
  running under whatever was returned. When it raises, the bare \<^verbatim>\<open>except\<close> releases
  the resources of the job and raises the exception again (an exception of the release
  itself takes its place); the job is neither popped nor entered in the running map.
  \<open>moved_to_running\<close> is lines 322-323 (348-349).
\<close>

datatype 'w start = Started "'w manager" | Raised error "'w manager"

definition moved_to_running :: "string \<Rightarrow> string option \<Rightarrow> 'w manager \<Rightarrow> 'w manager" where
  "moved_to_running job jobid s =
     s\<lparr>pending_jobs := AList.delete job (pending_jobs s),
       running_jobs := AList.update job jobid (running_jobs s)\<rparr>"

definition start_attempt :: "'w backend \<Rightarrow> string \<Rightarrow> pending_job \<Rightarrow> 'w manager \<Rightarrow> 'w start" where
  "start_attempt B job conf s =
     (case run_job B job (pj_retries conf) s of
        (Inl e, s1) \<Rightarrow>
          (case released job s1 of
             (None, s2) \<Rightarrow> Raised e s2
           | (Some e', s2) \<Rightarrow> Raised e' s2)
      | (Inr jobid, s1) \<Rightarrow> Started (moved_to_running job jobid s1))"

text \<open>The same for the loops, which an exception ends.\<close>

definition start_job :: "'w backend \<Rightarrow> string \<Rightarrow> pending_job \<Rightarrow> 'w manager \<Rightarrow> error + 'w manager" where
  "start_job B job conf s =
     (case start_attempt B job conf s of Started s' \<Rightarrow> Inr s' | Raised e s' \<Rightarrow> Inl e)"

text \<open>
  \<^verbatim>\<open>job_can_run\<close> of the first loop of \<^verbatim>\<open>run_pending_jobs\<close> (line 315); \<^verbatim>\<open>and\<close>
  evaluates its right side only when the left side is true.
\<close>

definition can_run_now :: "'w backend \<Rightarrow> string \<Rightarrow> pending_job \<Rightarrow> 'w manager \<Rightarrow> error + (bool \<times> 'w manager)" where
  "can_run_now B job conf s =
     (if pj_wait_for conf \<noteq> {} then Inr (False, s)
      else (case must_wait_time B conf s of
              (True, s1) \<Rightarrow> Inr (False, s1)
            | (False, s1) \<Rightarrow> try_acquire_resources job s1))"

text \<open>The first loop of \<^verbatim>\<open>run_pending_jobs\<close> (lines 310-323) over the sorted keys.\<close>

fun normal_pass :: "'w backend \<Rightarrow> string list \<Rightarrow> 'w manager \<Rightarrow> error + 'w manager" where
  "normal_pass B [] s = Inr s"
| "normal_pass B (job # rest) s =
     (if at_max_running s then Inr s
      else
        (case map_of (pending_jobs s) job of
           None \<Rightarrow> Inl (KeyError job)
         | Some conf \<Rightarrow>
             (case can_run_now B job conf s of
                Inl e \<Rightarrow> Inl e
              | Inr (job_can_run, s1) \<Rightarrow>
                  (if job_can_run then
                     (case start_job B job conf s1 of
                        Inl e \<Rightarrow> Inl e
                      | Inr s2 \<Rightarrow> normal_pass B rest s2)
                   else normal_pass B rest s1))))"

text \<open>\<^verbatim>\<open>not origin_job\<close>: None and the empty string are false.\<close>

definition no_origin :: "string option \<Rightarrow> bool" where
  "no_origin origin_job = (origin_job = None \<or> origin_job = Some [])"

text \<open>\<^verbatim>\<open>job_can_run\<close> of the second loop (lines 337-340).\<close>

definition can_skip_unknown ::
  "string option \<Rightarrow> string \<Rightarrow> pending_job \<Rightarrow> 'w manager \<Rightarrow> error + (bool \<times> 'w manager)" where
  "can_skip_unknown origin_job job conf s =
     (if pj_wait_for conf \<inter> fst ` set (pending_jobs s) = {}
         \<and> (no_origin origin_job \<or> pj_origin conf = origin_job)
      then try_acquire_resources job s
      else Inr (False, s))"

text \<open>
  The second loop of \<^verbatim>\<open>run_pending_jobs\<close> (lines 333-351) with its variable
  \<^verbatim>\<open>origin_job\<close>, assigned in every round (line 341). The \<^verbatim>\<open>return\<close> of line 351 and
  the end of the loop meet at the test of line 353.
\<close>

fun skip_unknown_pass :: "'w backend \<Rightarrow> string option \<Rightarrow> string list \<Rightarrow> 'w manager \<Rightarrow> error + 'w manager" where
  "skip_unknown_pass B origin_job [] s = Inr s"
| "skip_unknown_pass B origin_job (job # rest) s =
     (if at_max_running s then Inr s
      else
        (case map_of (pending_jobs s) job of
           None \<Rightarrow> Inl (KeyError job)
         | Some conf \<Rightarrow>
             (case can_skip_unknown origin_job job conf s of
                Inl e \<Rightarrow> Inl e
              | Inr (job_can_run, s1) \<Rightarrow>
                  (case (if job_can_run then start_job B job conf s1 else Inr s1) of
                     Inl e \<Rightarrow> Inl e
                   | Inr s2 \<Rightarrow>
                       if no_origin (pj_origin conf) \<and> running_jobs s2 \<noteq> [] then Inr s2
                       else skip_unknown_pass B (pj_origin conf) rest s2))))"

text \<open>The test of lines 325-327 that ends \<^verbatim>\<open>run_pending_jobs\<close> after the first loop.\<close>

definition done_after_normal_pass :: "'w manager \<Rightarrow> bool" where
  "done_after_normal_pass s =
     (pending_jobs s = [] \<or> running_jobs s \<noteq> []
      \<or> list_ex (\<lambda>entry. pj_wait_time (snd entry) \<noteq> None) (pending_jobs s))"

text \<open>The message of the RuntimeError (lines 357-360).\<close>

definition cycle_report :: "'w manager \<Rightarrow> (string \<times> string list) list" where
  "cycle_report s =
     map (\<lambda>job. (job, case map_of (pending_jobs s) job of
                         None \<Rightarrow> []
                       | Some conf \<Rightarrow> sorted_list_of_set (pj_wait_for conf)))
       (sort (map fst (pending_jobs s)))"

text \<open>Lines 329-360: the second loop and what follows it.\<close>

definition skip_unknown_mode :: "'w backend \<Rightarrow> 'w manager \<Rightarrow> error + 'w manager" where
  "skip_unknown_mode B s =
     (case skip_unknown_pass B None (sort (map fst (pending_jobs s))) s of
        Inl e \<Rightarrow> Inl e
      | Inr s' \<Rightarrow> if running_jobs s' \<noteq> [] then Inr s' else Inl (DependencyCycle (cycle_report s')))"

text \<open>\<^verbatim>\<open>run_pending_jobs\<close>.\<close>

definition run_pending_jobs :: "'w backend \<Rightarrow> 'w manager \<Rightarrow> error + 'w manager" where
  "run_pending_jobs B s =
     (case normal_pass B (sort (map fst (pending_jobs s))) s of
        Inl e \<Rightarrow> Inl e
      | Inr s1 \<Rightarrow> if done_after_normal_pass s1 then Inr s1 else skip_unknown_mode B s1)"

section \<open>Finished jobs\<close>

text \<open>\<^verbatim>\<open>_get_next_jobs\<close>.\<close>

definition get_next_jobs :: "string \<Rightarrow> string \<Rightarrow> 'w manager \<Rightarrow> error + string list" where
  "get_next_jobs job outcome s =
     (if only_starting_jobs s then Inr []
      else
        (case map_of (jobs_graph s) job of
           None \<Rightarrow> Inl (InvalidJob job)
         | Some conf \<Rightarrow>
             (case map_of (on_finish conf) outcome of
                Some nextjobs \<Rightarrow> Inr nextjobs
              | None \<Rightarrow>
                  if outcome \<in> set (failed_outcomes s)
                  then Inr (case map_of (on_finish conf) ''failed'' of None \<Rightarrow> [] | Some l \<Rightarrow> l)
                  else Inr (case map_of (on_finish conf) ''default'' of None \<Rightarrow> [] | Some l \<Rightarrow> l))))"

text \<open>
  The body of the loop over the successors (lines 373-384). \<^verbatim>\<open>jobconf['retries'] -= 1\<close>
  writes to the dict read before \<^verbatim>\<open>_add_pending_job\<close>: the entry of the job when it is
  still in the graph, and a dict the graph no longer holds when the job was expanded.
\<close>

definition follow_successor :: "string \<Rightarrow> string \<Rightarrow> 'w manager \<Rightarrow> error + 'w manager" where
  "follow_successor job nextjob s =
     (if nextjob = ''retry'' then
        (case map_of (jobs_graph s) job of
           None \<Rightarrow> Inl (InvalidJob job)
         | Some jobconf \<Rightarrow>
             if retries jobconf > 0 then
               (case add_pending_job job [] 1 s of
                  Inl e \<Rightarrow> Inl e
                | Inr s' \<Rightarrow>
                    Inr (s'\<lparr>jobs_graph :=
                              AList.map_entry job (\<lambda>c. c\<lparr>retries := retries c - 1\<rparr>) (jobs_graph s')\<rparr>))
             else Inr s)
      else if nextjob \<in> fst ` set (pending_jobs s) then Inr s
      else
        (case map_of (jobs_graph s) nextjob of
           None \<Rightarrow> Inl (InvalidJob nextjob)
         | Some conf \<Rightarrow>
             add_pending_job nextjob (case wait_for conf of None \<Rightarrow> [] | Some l \<Rightarrow> l) 0 s))"

text \<open>Lines 366-386: what \<^verbatim>\<open>check_running_jobs\<close> does for a job that finished with an outcome.\<close>

definition finish_job :: "string \<Rightarrow> string \<Rightarrow> 'w manager \<Rightarrow> error + 'w manager" where
  "finish_job job outcome s =
     (let s1 = s\<lparr>pending_jobs :=
                   map (\<lambda>entry. (fst entry, (snd entry)\<lparr>pj_wait_for := pj_wait_for (snd entry) - {job}\<rparr>))
                     (pending_jobs s),
                 jobs_graph :=
                   map (\<lambda>entry. (fst entry, (snd entry)\<lparr>wait_for := map_option (remove1 job) (wait_for (snd entry))\<rparr>))
                     (jobs_graph s)\<rparr>
      in case get_next_jobs job outcome s1 of
           Inl e \<Rightarrow> Inl e
         | Inr nextjobs \<Rightarrow>
             (case foldE (follow_successor job) nextjobs s1 of
                Inl e \<Rightarrow> Inl e
              | Inr s2 \<Rightarrow>
                  (case release_resources job s2 of
                     Inl e \<Rightarrow> Inl e
                   | Inr s3 \<Rightarrow> Inr (s3\<lparr>running_jobs := AList.delete job (running_jobs s3)\<rparr>))))"

text \<open>\<^verbatim>\<open>check_running_jobs\<close>: the loop runs over a copy of the running map.\<close>

fun check_each :: "'w backend \<Rightarrow> (string \<times> string option) list \<Rightarrow> 'w manager \<Rightarrow> error + 'w manager" where
  "check_each B [] s = Inr s"
| "check_each B ((job, jobid) # rest) s =
     (case is_finished B (world s) jobid of
        (None, w) \<Rightarrow> check_each B rest (s\<lparr>world := w\<rparr>)
      | (Some outcome, w) \<Rightarrow>
          (case finish_job job outcome (s\<lparr>world := w\<rparr>) of
             Inl e \<Rightarrow> Inl e
           | Inr s' \<Rightarrow> check_each B rest s'))"

definition check_running_jobs :: "'w backend \<Rightarrow> 'w manager \<Rightarrow> error + 'w manager" where
  "check_running_jobs B s = check_each B (running_jobs s) s"

text \<open>\<^verbatim>\<open>workflow_loop\<close>: False tells the driver that the workflow is complete.\<close>

definition workflow_loop :: "'w backend \<Rightarrow> 'w manager \<Rightarrow> error + (bool \<times> 'w manager)" where
  "workflow_loop B s =
     (case check_running_jobs B s of
        Inl e \<Rightarrow> Inl e
      | Inr s1 \<Rightarrow>
          if pending_jobs s1 \<noteq> [] then
            (case run_pending_jobs B s1 of
               Inl e \<Rightarrow> Inl e
             | Inr s2 \<Rightarrow> Inr (True, s2))
          else if running_jobs s1 = [] then Inr (False, s1)
          else Inr (True, s1))"

text \<open>
  Modelled from the spec: the driver loop of the base class WorkFlowManager, which is not
  in these sources. "Calls the scheduler's tick at a fixed cadence until it signals
  completion"; an error ends it. The fuel bounds the number of ticks: None is a run that
  has not ended within it.
\<close>

fun driver :: "'w backend \<Rightarrow> nat \<Rightarrow> 'w manager \<Rightarrow> (error + 'w manager) option" where
  "driver B 0 s = None"
| "driver B (Suc fuel) s =
     (case workflow_loop B s of
        Inl e \<Rightarrow> Some (Inl e)
      | Inr (True, s') \<Rightarrow> driver B fuel s'
      | Inr (False, s') \<Rightarrow> Some (Inr s'))"

section \<open>Resuming: the starting jobs of the resumed run\<close>

text \<open>
  \<^verbatim>\<open>_STARTING_JOB_RE.match(option)\<close> for \<^verbatim>\<open>"--starting-job(?:=(.+))?"\<close>: None when the
  option does not start with \<^verbatim>\<open>--starting-job\<close>, and otherwise the group: the longest
  run of characters other than a newline after \<^verbatim>\<open>=\<close>, or None when there is no \<^verbatim>\<open>=\<close>
  or no such character after it.
\<close>

definition starting_job_re_match :: "string \<Rightarrow> string option option" where
  "starting_job_re_match option =
     (if take 14 option = ''--starting-job'' then
        Some (case drop 14 option of
                c # rest \<Rightarrow>
                  if c = CHR ''='' \<and> takeWhile (\<lambda>x. x \<noteq> CHR 0x0A) rest \<noteq> []
                  then Some (takeWhile (\<lambda>x. x \<noteq> CHR 0x0A) rest) else None
              | [] \<Rightarrow> None)
      else None)"

text \<open>
  The loop of \<^verbatim>\<open>_get_starting_jobs_from_resumed_job\<close> over the recorded command line.
  The inner test of line 81 is \<^verbatim>\<open>if m\<close>, which holds whenever line 79 held, so the
  group is appended also when it is None and line 84 is never reached.
\<close>

fun starting_jobs_loop :: "bool \<Rightarrow> string list \<Rightarrow> string option list \<Rightarrow> string option list" where
  "starting_jobs_loop next_option_is_task [] starting_jobs = starting_jobs"
| "starting_jobs_loop next_option_is_task (option # rest) starting_jobs =
     (if next_option_is_task then starting_jobs_loop next_option_is_task rest (starting_jobs @ [Some option])
      else
        (case starting_job_re_match option of
           None \<Rightarrow> starting_jobs_loop next_option_is_task rest starting_jobs
         | Some task \<Rightarrow>
             if starting_job_re_match option \<noteq> None
             then starting_jobs_loop next_option_is_task rest (starting_jobs @ [task])
             else starting_jobs_loop True rest starting_jobs))"

definition get_starting_jobs_from_resumed_job :: "string list \<Rightarrow> string option list" where
  "get_starting_jobs_from_resumed_job job_cmd = starting_jobs_loop False job_cmd []"

section \<open>Notions the properties are stated with\<close>


text \<open>The amounts of a resource in all resource sets of all tasks of a graph.\<close>

definition requested_amounts :: "(string \<times> jobconf) list \<Rightarrow> string \<Rightarrow> rat list" where
  "requested_amounts graph res_name =
     map snd (filter (\<lambda>item. fst item = res_name)
       (concat (concat (map (\<lambda>job_entry. required_resources (snd job_entry)) graph))))"

text \<open>The initial capacity of the specification: the largest of them.\<close>

definition initial_capacity :: "(string \<times> jobconf) list \<Rightarrow> string \<Rightarrow> rat" where
  "initial_capacity graph res_name = Max (set (requested_amounts graph res_name))"

text \<open>What is available of a resource plus what the ledger records as acquired.\<close>

definition ledger_total :: "'w manager \<Rightarrow> string \<Rightarrow> rat" where
  "ledger_total s res_name =
     amount_available (available_resources s) res_name
     + sum_list (map snd (acquired_by (acquired_resources s) res_name))"

text \<open>
  A sequence of acquisitions and releases. An operation that raises ends the sequence;
  the state it leaves is the one reached by the operations before it.
\<close>

datatype ledger_op = Acquire string | Release string

fun ledger_run :: "ledger_op list \<Rightarrow> 'w manager \<Rightarrow> error + 'w manager" where
  "ledger_run [] s = Inr s"
| "ledger_run (Acquire job # ops) s =
     (case try_acquire_resources job s of Inl e \<Rightarrow> Inl e | Inr (ok, s') \<Rightarrow> ledger_run ops s')"
| "ledger_run (Release job # ops) s =
     (case release_resources job s of Inl e \<Rightarrow> Inl e | Inr s' \<Rightarrow> ledger_run ops s')"

text \<open>Reading a decimal numeral back, to tell the names of the units apart.\<close>

definition nat_of_string :: "string \<Rightarrow> nat" where
  "nat_of_string ds = foldl (\<lambda>acc c. 10 * acc + (of_char c - 48)) 0 ds"

text \<open>The resource sets a graph holds for a job.\<close>

definition resources_of :: "(string \<times> jobconf) list \<Rightarrow> string \<Rightarrow> resource_set list option" where
  "resources_of graph job = map_option required_resources (map_of graph job)"

text \<open>The amount at position \<open>j\<close> of resource set \<open>k\<close> of a job of the graph.\<close>

definition unit_amount :: "(string \<times> jobconf) list \<Rightarrow> string \<Rightarrow> nat \<Rightarrow> nat \<Rightarrow> rat" where
  "unit_amount graph job k j =
     (case map_of graph job of None \<Rightarrow> 0 | Some uc \<Rightarrow> snd (required_resources uc ! k ! j))"

text \<open>
  A job of the graph has no parallel argument (left): \<^verbatim>\<open>_add_pending_job\<close> pops the key
  from every job it makes pending, and the units of a fan-out are copies made after that.
\<close>

definition untemplated :: "(string \<times> jobconf) list \<Rightarrow> string \<Rightarrow> bool" where
  "untemplated graph job =
     (case map_of graph job of None \<Rightarrow> True | Some c \<Rightarrow> parallel_arg c = None)"

text \<open>The invariant: this holds of every job in the pending map and in the running map.\<close>

definition started_untemplated :: "'w manager \<Rightarrow> bool" where
  "started_untemplated s =
     list_all (untemplated (jobs_graph s)) (map fst (pending_jobs s) @ map fst (running_jobs s))"

text \<open>
  How a step that adds pending jobs relates two states: no job gets a parallel argument,
  the pending jobs that are new have none, and the running map is the same.
\<close>

definition adds_untemplated :: "'w manager \<Rightarrow> 'w manager \<Rightarrow> bool" where
  "adds_untemplated s s' \<longleftrightarrow>
     (\<forall>k. untemplated (jobs_graph s) k \<longrightarrow> untemplated (jobs_graph s') k)
     \<and> (\<forall>k\<in>fst ` set (pending_jobs s'). k \<in> fst ` set (pending_jobs s) \<or> untemplated (jobs_graph s') k)
     \<and> running_jobs s' = running_jobs s"




section \<open>Concrete configurations\<close>

text \<open>A task with a command and nothing else, and a pending record with no dependency.\<close>

definition plain_conf :: jobconf where
  "plain_conf =
     \<lparr>command = Some ''run'', init_args = [], retry_args = None, tags = None, units = None,
      project_id = None, required_resources = [], wait_for = None, wait_time = None,
      retries = 0, on_finish = [], parallel_arg = None\<rparr>"

definition plain_pending :: pending_job where
  "plain_pending =
     \<lparr>pj_wait_for = {}, pj_retries = 0, pj_required_resources = [], pj_origin = None,
      pj_wait_time = None\<rparr>"

text \<open>
  A manager as \<^verbatim>\<open>__init__\<close> leaves it, with the built-in failed outcomes. The world of
  the examples is the list of the command lines submitted so far.
\<close>

definition empty_manager :: "string list list manager" where
  "empty_manager =
     \<lparr>jobs_graph = [], pending_jobs = [], running_jobs = [], available_resources = [],
      acquired_resources = [],
      failed_outcomes = [''failed'', ''killed by oom'', ''cancelled'', ''cancel_timeout'',
                         ''memusage_exceeded'', ''cancelled (stalled)''],
      start_time = 0, parallelization = None, max_running_jobs = None,
      only_starting_jobs = False, world = []\<rparr>"

text \<open>
  A backend that accepts every job, gives it a fresh id and reports it as failed at the
  next check; the clock stands at 10 seconds after the start (the numbers of the examples
  are small integers, on which the arithmetic of floats is exact).
\<close>

definition failing_backend :: "string list list backend" where
  "failing_backend =
     \<lparr>schedule_script = (\<lambda>w cmd t u p. (Inr (Some (''job'' @ string_of_nat (length w))), w @ [cmd])),
      is_finished = (\<lambda>w jobid. (Some ''failed'', w)),
      time_now = (\<lambda>w. (10, w)),
      float_sub = (\<lambda>a b. a - b),
      float_add = (\<lambda>a b. a + b),
      task_run = (\<lambda>job. None)\<rparr>"




text \<open>
  Tasks X and Y, each asking for one cpu, or else for two units of memory; a third task
  Z asks for one cpu and four units of memory together.
\<close>

definition contended_graph :: "string list list manager" where
  "contended_graph =
     empty_manager\<lparr>jobs_graph :=
       [(''X'', plain_conf\<lparr>required_resources := [[(''cpu'', 1)], [(''mem'', 2)]]\<rparr>),
        (''Y'', plain_conf\<lparr>required_resources := [[(''cpu'', 1)], [(''mem'', 2)]]\<rparr>),
        (''Z'', plain_conf\<lparr>required_resources := [[(''cpu'', 1), (''mem'', 4)]]\<rparr>)]\<rparr>"




text \<open>
  One pending job M that waits for Z, a task that is neither pending nor running, with a
  timer of 5 seconds (elapsed on the clock of the example) and without one.
\<close>

definition waiting_with_timer :: "string list list manager" where
  "waiting_with_timer =
     empty_manager\<lparr>jobs_graph := [(''M'', plain_conf)],
       pending_jobs := [(''M'', plain_pending\<lparr>pj_wait_for := {''Z''}, pj_wait_time := Some 5\<rparr>)]\<rparr>"

definition waiting_without_timer :: "string list list manager" where
  "waiting_without_timer =
     empty_manager\<lparr>jobs_graph := [(''M'', plain_conf)],
       pending_jobs := [(''M'', plain_pending\<lparr>pj_wait_for := {''Z''}\<rparr>)]\<rparr>"

text \<open>
  Unit P_0 waits for the pending Q_0, and Q_0 waits only for Z, which is not pending.
\<close>

definition blocked_then_free :: "string list list manager" where
  "blocked_then_free =
     empty_manager\<lparr>jobs_graph := [(''P_0'', plain_conf), (''Q_0'', plain_conf)],
       pending_jobs :=
         [(''P_0'', plain_pending\<lparr>pj_wait_for := {''Q_0''}, pj_origin := Some ''P''\<rparr>),
          (''Q_0'', plain_pending\<lparr>pj_wait_for := {''Z''}, pj_origin := Some ''Q''\<rparr>)]\<rparr>"

text \<open>Units P_0, Q_0 and Q_1 wait only for Z, which is not pending.\<close>

definition two_families :: "string list list manager" where
  "two_families =
     empty_manager\<lparr>jobs_graph := [(''P_0'', plain_conf), (''Q_0'', plain_conf), (''Q_1'', plain_conf)],
       pending_jobs :=
         [(''P_0'', plain_pending\<lparr>pj_wait_for := {''Z''}, pj_origin := Some ''P''\<rparr>),
          (''Q_0'', plain_pending\<lparr>pj_wait_for := {''Z''}, pj_origin := Some ''Q''\<rparr>),
          (''Q_1'', plain_pending\<lparr>pj_wait_for := {''Z''}, pj_origin := Some ''Q''\<rparr>)]\<rparr>"

text \<open>
  Task A of the retry scenario: two retries and \<^verbatim>\<open>on_finish.failed = ["retry"]\<close>.
\<close>

definition retry_conf :: jobconf where
  "retry_conf = plain_conf\<lparr>retries := 2, on_finish := [(''failed'', [''retry''])]\<rparr>"

definition retry_graph :: "string list list manager" where
  "retry_graph = empty_manager\<lparr>jobs_graph := [(''A'', retry_conf)]\<rparr>"





text \<open>
  Task P fans out in three and has the successor Q, which waits for it; in the second
  graph Q was expanded before (its units Q_0 and Q_1 are in the graph and pending, Q is
  not), and P fans out in two.
\<close>

definition fan_out_graph :: "string list list manager" where
  "fan_out_graph =
     empty_manager\<lparr>parallelization := Some 3,
       jobs_graph :=
         [(''Q'', plain_conf\<lparr>wait_for := Some [''P'']\<rparr>),
          (''P'', plain_conf\<lparr>parallel_arg := Some ''--shard=%d'',
                              on_finish := [(''default'', [''Q''])],
                              required_resources := [[(''cpu'', 1), (''mem'', 2)], [(''gpu'', 5)]]\<rparr>)]\<rparr>"

definition expanded_successor_graph :: "string list list manager" where
  "expanded_successor_graph =
     empty_manager\<lparr>parallelization := Some 2,
       jobs_graph :=
         [(''Q_0'', plain_conf\<lparr>wait_for := Some []\<rparr>),
          (''Q_1'', plain_conf\<lparr>wait_for := Some []\<rparr>),
          (''P'', plain_conf\<lparr>parallel_arg := Some ''--shard=%d'',
                              on_finish := [(''default'', [''Q''])]\<rparr>)],
       pending_jobs :=
         [(''Q_0'', plain_pending\<lparr>pj_origin := Some ''Q''\<rparr>),
          (''Q_1'', plain_pending\<lparr>pj_origin := Some ''Q''\<rparr>)]\<rparr>"

section \<open>The ledger is conserved\<close>

lemma foldE_preserves:
  assumes "\<And>x t t'. f x t = Inr t' \<Longrightarrow> P t' = P t"
    and "foldE f xs s = Inr s'"
  shows "P s' = P s"
  using assms(2)
proof (induction xs arbitrary: s)
  case Nil
  then show ?case by simp
next
  case (Cons x xs)
  then show ?case by (auto split: sum.splits dest: assms(1))
qed

lemma amount_fill_item:
  "amount_available (fill_item item av) r =
     (if fst item = r then max (amount_available av r) (snd item) else amount_available av r)"
  by (auto simp: fill_item_def amount_available_def Let_def update_conv' split: option.splits)

lemma amount_fold_fill_item:
  "amount_available (fold fill_item items av) r =
     fold max (map snd (filter (\<lambda>item. fst item = r) items)) (amount_available av r)"
  by (induction items arbitrary: av) (auto simp: amount_fill_item max.commute)

lemma fold_fill_concat:
  "fold (\<lambda>rs. fold fill_item rs) sets av = fold fill_item (concat sets) av"
  by (induction sets arbitrary: av) auto

lemma fold_fill_graph:
  "fold (\<lambda>job_entry. fold (\<lambda>rs. fold fill_item rs) (required_resources (snd job_entry))) graph av
     = fold fill_item (concat (concat (map (\<lambda>job_entry. required_resources (snd job_entry)) graph))) av"
  by (induction graph arbitrary: av) (auto simp: fold_fill_concat)

lemma fill_total:
  assumes "available_resources s0 = []" "acquired_resources s0 = []"
    and "requested_amounts (jobs_graph s0) r \<noteq> []"
    and "0 \<le> initial_capacity (jobs_graph s0) r"
  shows "ledger_total (fill_available_resources s0) r = initial_capacity (jobs_graph s0) r"
proof -
  have "amount_available (available_resources (fill_available_resources s0)) r
          = fold max (requested_amounts (jobs_graph s0) r) 0"
  proof -
    have "amount_available [] r = 0" by (simp add: amount_available_def)
    then show ?thesis
      by (simp add: fill_available_resources_def fold_fill_graph amount_fold_fill_item
          requested_amounts_def assms(1))
  qed
  also have "\<dots> = Max (set (0 # requested_amounts (jobs_graph s0) r))"
    by (simp only: Max.set_eq_fold)
  also have "\<dots> = max 0 (initial_capacity (jobs_graph s0) r)"
    using assms(3) by (simp add: initial_capacity_def)
  finally show ?thesis
    using assms(2,4) by (simp add: ledger_total_def fill_available_resources_def acquired_by_def)
qed

lemma sufficient_keys:
  "sufficient av rs = Inr True \<Longrightarrow> fst ` set rs \<subseteq> fst ` set av"
  by (induction av rs rule: sufficient.induct)
     (auto split: option.splits if_splits dest: map_of_SomeD intro: rev_image_eqI)

lemma take_resources_total:
  "fst ` set rs \<subseteq> fst ` set (available_resources s) \<Longrightarrow>
   ledger_total (take_resources job rs s) r = ledger_total s r"
proof (induction job rs s rule: take_resources.induct)
  case (1 job s)
  then show ?case by simp
next
  case (2 job res_name res_amount rest s)
  from 2(2) obtain v where v: "map_of (available_resources s) res_name = Some v"
    by (auto simp: image_subset_iff) (metis domIff dom_map_of_conv_image_fst not_None_eq rev_image_eqI fst_conv)
  let ?s = "s\<lparr>available_resources :=
             AList.map_entry res_name (\<lambda>v. v - res_amount) (available_resources s),
           acquired_resources :=
             AList.map_default res_name [(job, res_amount)] (\<lambda>l. l @ [(job, res_amount)])
               (acquired_resources s)\<rparr>"
  have "ledger_total (take_resources job rest ?s) r = ledger_total ?s r"
    using 2(2) by (intro 2(1)) (auto simp: dom_map_entry)
  also have "\<dots> = ledger_total s r"
    using v by (auto simp: ledger_total_def amount_available_def acquired_by_def
        map_of_map_entry map_of_map_default split: option.splits)
  finally show ?case by simp
qed

lemma try_sets_total:
  "try_sets job result sets s = Inr (ok, s') \<Longrightarrow> ledger_total s' r = ledger_total s r"
proof (induction sets arbitrary: result)
  case Nil
  then show ?case by simp
next
  case (Cons rs sets)
  then show ?case
    by (auto split: sum.splits bool.splits if_splits simp: take_resources_total sufficient_keys)
qed

lemma try_acquire_total:
  "try_acquire_resources job s = Inr (ok, s') \<Longrightarrow> ledger_total s' r = ledger_total s r"
  by (auto simp: try_acquire_resources_def split: option.splits dest: try_sets_total)

lemma release_scan_total:
  "release_scan job i acq v = (acq', v') \<Longrightarrow>
   v' + sum_list (map snd acq') = v + sum_list (map snd acq)"
proof (induction job i acq v rule: release_scan.induct)
  case (1 job i acquired v)
  show ?case
  proof (cases "i < length acquired")
    case False
    with 1(3) show ?thesis by (simp add: release_scan.simps)
  next
    case True
    show ?thesis
    proof (cases "fst (acquired ! i) = job")
      case hit: True
      from True have mem: "acquired ! i \<in> set acquired" by simp
      from 1(3) True hit have
        "release_scan job (Suc i) (remove1 (acquired ! i) acquired) (v + snd (acquired ! i)) = (acq', v')"
        by (simp add: release_scan.simps[of job i])
      from 1(1)[OF True hit this] sum_list_map_remove1[OF mem, of snd]
      show ?thesis by simp
    next
      case miss: False
      from 1(3) True miss have "release_scan job (Suc i) acquired v = (acq', v')"
        by (simp add: release_scan.simps[of job i])
      from 1(2)[OF True miss this] show ?thesis .
    qed
  qed
qed

lemma release_one_total:
  "release_one job res_name s = Inr s' \<Longrightarrow> ledger_total s' r = ledger_total s r"
  by (auto simp: release_one_def Let_def ledger_total_def amount_available_def acquired_by_def
      update_conv' split: option.splits if_splits prod.splits dest!: release_scan_total)

lemma release_total:
  "release_resources job s = Inr s' \<Longrightarrow> ledger_total s' r = ledger_total s r"
  unfolding release_resources_def
  by (rule foldE_preserves[where P = "\<lambda>t. ledger_total t r"]) (auto dest: release_one_total)

lemma ledger_run_total:
  "ledger_run ops s = Inr s' \<Longrightarrow> ledger_total s' r = ledger_total s r"
proof (induction ops s rule: ledger_run.induct)
  case (1 s)
  then show ?case by simp
next
  case (2 job ops s)
  then show ?case by (auto split: sum.splits dest: try_acquire_total)
next
  case (3 job ops s)
  then show ?case by (auto split: sum.splits dest: release_total)
qed

section \<open>Acquisition takes the first set that fits\<close>



lemma take_resources_frame:
  "jobs_graph (take_resources job rs s) = jobs_graph s
   \<and> pending_jobs (take_resources job rs s) = pending_jobs s
   \<and> running_jobs (take_resources job rs s) = running_jobs s"
  by (induction job rs s rule: take_resources.induct) auto



section \<open>The units of a fan-out\<close>

lemma nat_of_string_snoc:
  "nat_of_string (ds @ [c]) = 10 * nat_of_string ds + (of_char c - 48)"
  by (simp add: nat_of_string_def)

lemma digit_value: "d < 10 \<Longrightarrow> of_char (digit_char d) - 48 = d"
  by (simp add: digit_char_def)

lemma nat_of_string_of_nat: "nat_of_string (string_of_nat n) = n"
proof (induction n rule: string_of_nat.induct)
  case (1 n)
  show ?case
  proof (cases "n < 10")
    case True
    then show ?thesis
      using nat_of_string_snoc[of "[]" "digit_char n"]
      by (simp add: string_of_nat.simps[of n] digit_value nat_of_string_def)
  next
    case False
    with 1 show ?thesis
      by (simp add: string_of_nat.simps[of n] nat_of_string_snoc digit_value)
  qed
qed

lemma unit_name_inj: "unit_name job i = unit_name job k \<Longrightarrow> i = k"
  by (metis nat_of_string_of_nat same_append_eq unit_name_def)

lemma distinct_unit_names: "distinct (map (unit_name job) [0..<n])"
  by (simp add: distinct_map inj_on_def) (metis unit_name_inj)

lemma resources_of_map_entry:
  "(\<And>c. required_resources (f c) = required_resources c) \<Longrightarrow>
   resources_of (AList.map_entry k f g) k' = resources_of g k'"
  by (auto simp: resources_of_def map_of_map_entry split: option.splits)

lemma wait_in_units_resources:
  "wait_in_units job job_unit us t = Inr t' \<Longrightarrow>
   resources_of (jobs_graph t') k = resources_of (jobs_graph t) k"
proof (induction job job_unit us t rule: wait_in_units.induct)
  case (1 job job_unit s)
  then show ?case by simp
next
  case (2 job job_unit i rest s)
  then show ?case
    by (auto simp: Let_def resources_of_map_entry split: option.splits)
qed

lemma detach_successor_resources:
  "detach_successor job job_unit n nextjob t = Inr t' \<Longrightarrow>
   resources_of (jobs_graph t') k = resources_of (jobs_graph t) k"
  by (auto simp: detach_successor_def resources_of_map_entry wait_in_units_resources
      split: if_splits)

lemma detach_all_resources:
  "foldE (detach_successor job job_unit n) nextjobs t = Inr t' \<Longrightarrow>
   resources_of (jobs_graph t') k = resources_of (jobs_graph t) k"
  by (rule foldE_preserves[where P = "\<lambda>t. resources_of (jobs_graph t) k"])
     (auto dest: detach_successor_resources)

lemma unit_conf_resources:
  "required_resources (unit_conf base n tpl i) = split_resources n (required_resources base)"
  by (simp add: unit_conf_def Let_def)

lemma expand_units_resources:
  "expand_units job base n tpl wfa r us t = Inr t' \<Longrightarrow>
   (\<forall>i\<in>set us. resources_of (jobs_graph t') (unit_name job i)
        = Some (split_resources n (required_resources base)))
   \<and> (\<forall>k. resources_of (jobs_graph t) k = Some (split_resources n (required_resources base))
        \<longrightarrow> resources_of (jobs_graph t') k = Some (split_resources n (required_resources base)))"
proof (induction us arbitrary: t)
  case Nil
  then show ?case by simp
next
  case (Cons i rest)
  let ?X = "split_resources n (required_resources base)"
  from Cons.prems obtain t1 where
    t1: "(if i \<noteq> 0 then foldE (detach_successor job (unit_name job i) (nat n))
              (concat (map snd (on_finish base))) t else Inr t) = Inr t1"
    by (auto simp: Let_def split: sum.splits)
  let ?t2 = "t1\<lparr>jobs_graph := AList.update (unit_name job i) (unit_conf base n tpl i) (jobs_graph t1),
                pending_jobs :=
                  AList.update (unit_name job i)
                    \<lparr>pj_wait_for = set wfa, pj_retries = r,
                     pj_required_resources = required_resources (unit_conf base n tpl i),
                     pj_origin = Some job, pj_wait_time = wait_time base\<rparr>
                    (pending_jobs t1)\<rparr>"
  from Cons.prems t1 have rest: "expand_units job base n tpl wfa r rest ?t2 = Inr t'"
    by (auto simp: Let_def split: sum.splits if_splits)
  have same: "resources_of (jobs_graph t1) k = resources_of (jobs_graph t) k" for k
    using t1 by (auto split: if_splits dest: detach_all_resources)
  have unit: "resources_of (jobs_graph ?t2) (unit_name job i) = Some ?X"
    by (simp add: resources_of_def update_conv' unit_conf_resources)
  have keep: "resources_of (jobs_graph t) k = Some ?X \<Longrightarrow> resources_of (jobs_graph ?t2) k = Some ?X" for k
    using same[of k] by (auto simp: resources_of_def update_conv' unit_conf_resources)
  from Cons.IH[OF rest] unit keep show ?case by auto
qed

lemma relink_resources:
  "resources_of (jobs_graph (relink job n other t)) k = resources_of (jobs_graph t) k"
  by (auto simp: relink_def resources_of_map_entry split: option.splits)

lemma fold_relink_resources:
  "resources_of (jobs_graph (fold (relink job n) others t)) k = resources_of (jobs_graph t) k"
  by (induction others arbitrary: t) (auto simp: relink_resources)

lemma fan_out_resources:
  assumes "map_of (jobs_graph s) job = Some conf"
    and "parallel_arg conf = Some (c # cs)"
    and "parallelization s = Some n"
    and "add_pending_job job wfa r s = Inr s'"
    and "i < nat n"
  shows "resources_of (jobs_graph s') (unit_name job i)
           = Some (split_resources n (required_resources conf))"
proof -
  let ?base = "conf\<lparr>parallel_arg := None\<rparr>"
  let ?s2 = "s\<lparr>jobs_graph := AList.delete job
                 (AList.map_entry job (\<lambda>c. c\<lparr>parallel_arg := None\<rparr>) (jobs_graph s))\<rparr>"
  from assms(1-4) obtain s3 where
    s3: "expand_units job ?base n (c # cs) wfa r [0..<nat n] ?s2 = Inr s3"
    and s': "s' = fold (relink job (nat n)) (map fst (jobs_graph s3)) s3"
    by (auto simp: add_pending_job_def Let_def split: sum.splits)
  from expand_units_resources[OF s3] assms(5)
  have "resources_of (jobs_graph s3) (unit_name job i)
          = Some (split_resources n (required_resources conf))"
    by simp
  then show ?thesis by (simp add: s' fold_relink_resources)
qed

lemma split_sum:
  assumes "1 \<le> n"
  shows "(\<Sum>i = 0..<nat n. (a::rat) / of_int n) = a"
  using assms by simp

section \<open>Claims about the resource ledger\<close>

lemma take_resources_keys:
  "fst ` set (available_resources (take_resources job rs s)) = fst ` set (available_resources s)"
  by (induction job rs s rule: take_resources.induct) (simp_all add: dom_map_entry)

lemma try_sets_keys:
  "try_sets job result sets s = Inr (ok, s') \<Longrightarrow>
   fst ` set (available_resources s') = fst ` set (available_resources s)"
proof (induction sets arbitrary: result)
  case Nil
  then show ?case by simp
next
  case (Cons rs sets)
  show ?case
  proof (cases "sufficient (available_resources s) rs")
    case (Inl e)
    with Cons.prems show ?thesis by simp
  next
    case (Inr b)
    show ?thesis
    proof (cases b)
      case True
      with Inr Cons.prems have "s' = take_resources job rs s" by simp
      then show ?thesis by (simp add: take_resources_keys)
    next
      case False
      with Inr Cons.prems have "try_sets job False sets s = Inr (ok, s')" by simp
      then show ?thesis by (rule Cons.IH)
    qed
  qed
qed

lemma release_one_keys:
  "release_one job res_name s = Inr s' \<Longrightarrow>
   fst ` set (available_resources s) \<subseteq> fst ` set (available_resources s')"
proof -
  assume a: "release_one job res_name s = Inr s'"
  show ?thesis
  proof (cases "list_ex (\<lambda>e. fst e = job) (acquired_by (acquired_resources s) res_name)")
    case False
    with a have "s' = s" by (simp add: release_one_def Let_def)
    then show ?thesis by simp
  next
    case True
    with a obtain v where "map_of (available_resources s) res_name = Some v"
      by (cases "map_of (available_resources s) res_name") (simp_all add: release_one_def Let_def)
    with a True obtain v' where
      "available_resources s' = AList.update res_name v' (available_resources s)"
      by (cases "release_scan job 0 (acquired_by (acquired_resources s) res_name) v")
         (auto simp: release_one_def Let_def)
    then show ?thesis by (simp add: dom_update subset_insertI)
  qed
qed

lemma release_keys:
  "foldE (release_one job) names s = Inr s' \<Longrightarrow>
   fst ` set (available_resources s) \<subseteq> fst ` set (available_resources s')"
proof (induction names arbitrary: s)
  case Nil
  then show ?case by simp
next
  case (Cons x xs)
  from Cons.prems obtain t where t: "release_one job x s = Inr t" and r: "foldE (release_one job) xs t = Inr s'"
    by (cases "release_one job x s") simp_all
  from release_one_keys[OF t] Cons.IH[OF r] show ?case by (rule subset_trans)
qed

lemma ledger_run_keys:
  "ledger_run ops s = Inr s' \<Longrightarrow>
   fst ` set (available_resources s) \<subseteq> fst ` set (available_resources s')"
proof (induction ops s rule: ledger_run.induct)
  case (1 s)
  then show ?case by simp
next
  case (2 job ops s)
  from 2(2) obtain ok t where t: "try_acquire_resources job s = Inr (ok, t)"
    and r: "ledger_run ops t = Inr s'"
    by (cases "try_acquire_resources job s") auto
  from t have "fst ` set (available_resources t) = fst ` set (available_resources s)"
    by (cases "map_of (jobs_graph s) job")
       (simp_all add: try_acquire_resources_def try_sets_keys)
  with 2(1)[OF t refl r] show ?case by simp
next
  case (3 job ops s)
  from 3(2) obtain t where t: "release_resources job s = Inr t"
    and r: "ledger_run ops t = Inr s'"
    by (cases "release_resources job s") auto
  from t have "fst ` set (available_resources s) \<subseteq> fst ` set (available_resources t)"
    by (simp add: release_resources_def release_keys)
  with 3(1)[OF t r] show ?case by (rule subset_trans[rotated])
qed

lemma positive_amount_has_key:
  "0 < amount_available av r \<Longrightarrow> r \<in> fst ` set av"
  by (auto simp: amount_available_def split: option.splits dest: map_of_SomeD intro: rev_image_eqI)

text \<open>
  Claim C2. Start from a manager whose ledger is empty, as \<^verbatim>\<open>__init__\<close> leaves it, and
  run \<^verbatim>\<open>_fill_available_resources\<close>. In every state reached from there by a sequence
  of \<^verbatim>\<open>_try_acquire_resources\<close> and \<^verbatim>\<open>_release_resources\<close> calls, for every resource
  \<open>r\<close> that some resource set of some task names: what is available of \<open>r\<close> plus the sum
  of the amounts the ledger records as acquired for \<open>r\<close> is the initial capacity of \<open>r\<close>,
  the largest amount of \<open>r\<close> in any resource set of any task. Amounts are not negative in
  the data model, which is used as \<open>0 \<le> capacity\<close>. The available amount is read as the
  code's \<^verbatim>\<open>get(r, 0)\<close>; when the capacity is positive, \<open>r\<close> is a key of the map.
\<close>

theorem ledger_conservation:
  assumes "available_resources s0 = []" and "acquired_resources s0 = []"
    and "ledger_run ops (fill_available_resources s0) = Inr s"
    and "requested_amounts (jobs_graph s0) r \<noteq> []"
    and "0 \<le> initial_capacity (jobs_graph s0) r"
  shows "amount_available (available_resources s) r
           + sum_list (map snd (acquired_by (acquired_resources s) r))
         = initial_capacity (jobs_graph s0) r
       \<and> (0 < initial_capacity (jobs_graph s0) r \<longrightarrow> r \<in> fst ` set (available_resources s))"
proof -
  have total: "ledger_total (fill_available_resources s0) r = initial_capacity (jobs_graph s0) r"
    by (rule fill_total[OF assms(1,2,4,5)])
  have "acquired_by (acquired_resources (fill_available_resources s0)) r = []"
    by (simp add: fill_available_resources_def assms(2) acquired_by_def)
  with total have "amount_available (available_resources (fill_available_resources s0)) r
      = initial_capacity (jobs_graph s0) r"
    by (simp add: ledger_total_def)
  then have "0 < initial_capacity (jobs_graph s0) r \<Longrightarrow>
      r \<in> fst ` set (available_resources (fill_available_resources s0))"
    by (simp add: positive_amount_has_key)
  with ledger_run_keys[OF assms(3)] ledger_run_total[OF assms(3), of r] total
  show ?thesis by (auto simp: ledger_total_def)
qed

text \<open>
  The ledger of the contended graph after X and Y acquire, X releases, Z fails to acquire,
  Y releases and Z acquires: nothing is left of the memory, and Z holds all 4 units.
\<close>

theorem ledger_conservation_witness:
  "ledger_run [Acquire ''X'', Acquire ''Y'', Release ''X'', Acquire ''Z'', Release ''Y'', Acquire ''Z'']
      (fill_available_resources contended_graph)
     = Inr (contended_graph\<lparr>available_resources := [(''cpu'', 0), (''mem'', 0)],
              acquired_resources := [(''cpu'', [(''Z'', 1)]), (''mem'', [(''Z'', 4)])]\<rparr>)
   \<and> initial_capacity (jobs_graph contended_graph) ''mem'' = 4
   \<and> amount_available [(''cpu'', 0), (''mem'', 0)] ''mem'' + sum_list (map snd [(''Z'', 4::rat)]) = 4"
proof -
  let ?ops = "[Acquire ''X'', Acquire ''Y'', Release ''X'', Acquire ''Z'', Release ''Y'', Acquire ''Z'']"
  let ?s = "contended_graph\<lparr>available_resources := [(''cpu'', 0), (''mem'', 0)],
              acquired_resources := [(''cpu'', [(''Z'', 1)]), (''mem'', [(''Z'', 4)])]\<rparr>"
  have h1: "available_resources contended_graph = []" by code_simp
  have h2: "acquired_resources contended_graph = []" by code_simp
  have h3: "ledger_run ?ops (fill_available_resources contended_graph) = Inr ?s" by code_simp
  have h4: "requested_amounts (jobs_graph contended_graph) ''mem'' \<noteq> []" by code_simp
  have c: "initial_capacity (jobs_graph contended_graph) ''mem'' = 4" by code_simp
  have h5: "0 \<le> initial_capacity (jobs_graph contended_graph) ''mem''" by (simp add: c)
  have a: "acquired_by (acquired_resources ?s) ''mem'' = [(''Z'', 4)]" by code_simp
  from ledger_conservation[OF h1 h2 h3 h4 h5] h3 c a show ?thesis by simp
qed












section \<open>Claims about starting pending jobs\<close>

lemma run_job_frame:
  "run_job B job retries_arg s = (result, s1) \<Longrightarrow> s1 = s\<lparr>world := world s1\<rparr>"
  by (auto simp: run_job_def split: option.splits sum.splits prod.splits)








text \<open>
  Claim C4 does not hold of the code: the test of lines 325-327 is \<^verbatim>\<open>wait_time is not
  None\<close> and never reads the clock, which \<^verbatim>\<open>_must_wait_time\<close> of the first loop does.
  M is pending with a timer of 5 seconds, on a clock that stands at 10 seconds after the
  start, and waits for Z, which is neither pending nor running; nothing is running. The
  timer has elapsed (\<^verbatim>\<open>_must_wait_time\<close> is False), the first loop starts nothing, and
  \<^verbatim>\<open>run_pending_jobs\<close> returns the state as it was: it neither enters the second mode,
  which would have started M, nor raises. \<^verbatim>\<open>workflow_loop\<close> returns True with the same
  state, at this and at every later tick. Without the timer the same call starts M.
\<close>

theorem elapsed_wait_time_blocks_second_mode:
  "pending_jobs waiting_with_timer
     = [(''M'', plain_pending\<lparr>pj_wait_for := {''Z''}, pj_wait_time := Some 5\<rparr>)]
   \<and> running_jobs waiting_with_timer = []
   \<and> must_wait_time failing_backend (plain_pending\<lparr>pj_wait_for := {''Z''}, pj_wait_time := Some 5\<rparr>)
        waiting_with_timer = (False, waiting_with_timer)
   \<and> normal_pass failing_backend (sort (map fst (pending_jobs waiting_with_timer))) waiting_with_timer
     = Inr waiting_with_timer
   \<and> run_pending_jobs failing_backend waiting_with_timer = Inr waiting_with_timer
   \<and> skip_unknown_mode failing_backend waiting_with_timer
       = Inr (waiting_with_timer\<lparr>world := [[''run'']], pending_jobs := [],
                running_jobs := [(''M'', Some ''job0'')]\<rparr>)
   \<and> workflow_loop failing_backend waiting_with_timer = Inr (True, waiting_with_timer)
   \<and> run_pending_jobs failing_backend waiting_without_timer
       = Inr (waiting_without_timer\<lparr>world := [[''run'']], pending_jobs := [],
                running_jobs := [(''M'', Some ''job0'')]\<rparr>)"
  by code_simp

text \<open>
  Claim C5 does not hold of the code, which assigns \<^verbatim>\<open>origin_job\<close> in every round of
  the second loop (line 341), started or not. First input: P_0 (origin P) is blocked by
  the pending Q_0, and Q_0 (origin Q) waits only for a task that is not pending; no job
  has been started when Q_0 is visited, yet it is refused for its origin and the call
  raises the dependency cycle. Second input: P_0, Q_0, Q_1 all wait for a task that is
  not pending; P_0 is started first, Q_0 is refused, and Q_1, whose origin is Q and not P,
  is started in the same call.
\<close>

theorem origin_follows_every_visited_job:
  "run_pending_jobs failing_backend blocked_then_free
     = Inl (DependencyCycle [(''P_0'', [''Q_0'']), (''Q_0'', [''Z''])])
   \<and> run_pending_jobs failing_backend two_families
     = Inr (two_families\<lparr>world := [[''run''], [''run'']],
              pending_jobs := [(''Q_0'', plain_pending\<lparr>pj_wait_for := {''Z''}, pj_origin := Some ''Q''\<rparr>)],
              running_jobs := [(''P_0'', Some ''job0''), (''Q_1'', Some ''job1'')]\<rparr>)"
  by code_simp

section \<open>Claims about the fan-out and the resumed command line\<close>

text \<open>
  Claim C7 does not hold of the code. P fans out in two and its successor Q was expanded
  before (Q_0 and Q_1 are in the graph, Q is not). For unit P_1 the loop of lines 185-189
  builds the names P_0 and P_1 from \<^verbatim>\<open>job\<close> instead of Q_0 and Q_1 from
  \<^verbatim>\<open>nextjob\<close>, and \<^verbatim>\<open>get_job\<close> exits on P_1, which is not in the graph yet.
\<close>

theorem fan_out_expanded_successor_fails:
  "add_pending_job ''P'' [] 0 expanded_successor_graph = Inl (InvalidJob ''P_1'')"
  by code_simp

text \<open>
  Claim C9 does not hold of the code for the two-token form: the inner test of line 81
  is \<^verbatim>\<open>if m\<close>, so for \<^verbatim>\<open>--starting-job A\<close> the group None is appended and A is
  not. The form \<^verbatim>\<open>--starting-job=X\<close> contributes X.
\<close>

theorem two_token_starting_job_lost:
  "get_starting_jobs_from_resumed_job [''manager.py'', ''--starting-job'', ''A''] = [None]
   \<and> get_starting_jobs_from_resumed_job [''manager.py'', ''--starting-job=A'', ''--starting-job=B'']
       = [Some ''A'', Some ''B'']"
  by code_simp

lemma split_resources_nth:
  "k < length sets \<Longrightarrow> j < length (sets ! k) \<Longrightarrow>
   split_resources n sets ! k ! j = (fst (sets ! k ! j), snd (sets ! k ! j) / of_int n)"
  by (simp add: split_resources_def)

text \<open>
  Claim C8. When \<^verbatim>\<open>_add_pending_job\<close> expands a task with a parallel argument and
  \<^verbatim>\<open>parallelization\<close> \<open>n \<ge> 1\<close> and returns, the graph holds, for each of the \<open>n\<close>
  units (whose names are pairwise different), the resource sets of the task with every
  amount divided by \<open>n\<close> as a rational; so for every resource of every set, the amounts
  of the \<open>n\<close> units add up to the amount the task declared, exactly.
\<close>

theorem fan_out_splits_resources_exactly:
  assumes "map_of (jobs_graph s) job = Some conf"
    and "parallel_arg conf = Some (c # cs)"
    and "parallelization s = Some n" and "1 \<le> n"
    and "add_pending_job job wait_for_arg retries_arg s = Inr s'"
  shows "(\<forall>i<nat n. resources_of (jobs_graph s') (unit_name job i)
            = Some (split_resources n (required_resources conf)))
       \<and> distinct (map (unit_name job) [0..<nat n])
       \<and> (\<forall>k<length (required_resources conf). \<forall>j<length (required_resources conf ! k).
            split_resources n (required_resources conf) ! k ! j
              = (fst (required_resources conf ! k ! j), snd (required_resources conf ! k ! j) / of_int n)
            \<and> (\<Sum>i = 0..<nat n. unit_amount (jobs_graph s') (unit_name job i) k j)
                = snd (required_resources conf ! k ! j))"
proof -
  let ?sets = "required_resources conf"
  have units: "resources_of (jobs_graph s') (unit_name job i) = Some (split_resources n ?sets)"
    if "i < nat n" for i
    using assms(1,2,3,5) that by (rule fan_out_resources)
  have amount: "unit_amount (jobs_graph s') (unit_name job i) k j = snd (?sets ! k ! j) / of_int n"
    if "i < nat n" "k < length ?sets" "j < length (?sets ! k)" for i k j
  proof -
    from units[OF that(1)] obtain uc where
      uc: "map_of (jobs_graph s') (unit_name job i) = Some uc"
      and rr: "required_resources uc = split_resources n ?sets"
      by (auto simp: resources_of_def)
    from uc rr that(2,3) show ?thesis
      by (simp add: unit_amount_def split_resources_nth)
  qed
  have total: "(\<Sum>i = 0..<nat n. unit_amount (jobs_graph s') (unit_name job i) k j)
                 = snd (?sets ! k ! j)"
    if "k < length ?sets" "j < length (?sets ! k)" for k j
  proof -
    have "(\<Sum>i = 0..<nat n. unit_amount (jobs_graph s') (unit_name job i) k j)
            = (\<Sum>i = 0..<nat n. snd (?sets ! k ! j) / of_int n)"
      by (rule sum.cong) (simp_all add: amount that)
    also have "\<dots> = snd (?sets ! k ! j)"
      using assms(4) by (rule split_sum)
    finally show ?thesis .
  qed
  from units have a: "\<forall>i<nat n. resources_of (jobs_graph s') (unit_name job i)
            = Some (split_resources n ?sets)"
    by simp
  from total have b: "\<forall>k<length ?sets. \<forall>j<length (?sets ! k).
            split_resources n ?sets ! k ! j
              = (fst (?sets ! k ! j), snd (?sets ! k ! j) / of_int n)
            \<and> (\<Sum>i = 0..<nat n. unit_amount (jobs_graph s') (unit_name job i) k j)
                = snd (?sets ! k ! j)"
    by (simp add: split_resources_nth)
  from a distinct_unit_names[of job "nat n"] b show ?thesis by (intro conjI)
qed

text \<open>
  P fans out in three: its unit P_2 holds a third of every amount, and the three units
  together hold the 2 units of memory of the first set.
\<close>

theorem fan_out_splits_resources_exactly_witness:
  "\<not> isl (add_pending_job ''P'' [] 0 fan_out_graph)
   \<and> resources_of (jobs_graph (projr (add_pending_job ''P'' [] 0 fan_out_graph))) ''P_2''
       = Some [[(''cpu'', 1 / 3), (''mem'', 2 / 3)], [(''gpu'', 5 / 3)]]
   \<and> (\<Sum>i = 0..<3. unit_amount (jobs_graph (projr (add_pending_job ''P'' [] 0 fan_out_graph)))
                        (unit_name ''P'' i) 0 1) = 2"
proof -
  let ?conf = "plain_conf\<lparr>parallel_arg := Some ''--shard=%d'',
                              on_finish := [(''default'', [''Q''])],
                              required_resources := [[(''cpu'', 1), (''mem'', 2)], [(''gpu'', 5)]]\<rparr>"
  have ok: "\<not> isl (add_pending_job ''P'' [] 0 fan_out_graph)" by code_simp
  then obtain s' where s': "add_pending_job ''P'' [] 0 fan_out_graph = Inr s'"
    by (cases "add_pending_job ''P'' [] 0 fan_out_graph") auto
  have h1: "map_of (jobs_graph fan_out_graph) ''P'' = Some ?conf" by code_simp
  have h2: "parallel_arg ?conf = Some ''--shard=%d''" by code_simp
  have h3: "parallelization fan_out_graph = Some 3" by code_simp
  have h4: "(1::int) \<le> 3" by simp
  note t = fan_out_splits_resources_exactly[OF h1 h2 h3 h4 s']
  have u: "unit_name ''P'' 2 = ''P_2''" by code_simp
  have sp: "split_resources 3 (required_resources ?conf)
      = [[(''cpu'', 1 / 3), (''mem'', 2 / 3)], [(''gpu'', 5 / 3)]]" by code_simp
  have len: "(0::nat) < length (required_resources ?conf) \<and> (1::nat) < length (required_resources ?conf ! 0)
      \<and> snd (required_resources ?conf ! 0 ! 1) = 2" by code_simp
  from t have "resources_of (jobs_graph s') (unit_name ''P'' 2)
      = Some (split_resources 3 (required_resources ?conf))"
    by simp
  with u sp have a: "resources_of (jobs_graph s') ''P_2''
      = Some [[(''cpu'', 1 / 3), (''mem'', 2 / 3)], [(''gpu'', 5 / 3)]]" by simp
  from t len have b: "(\<Sum>i = 0..<nat 3. unit_amount (jobs_graph s') (unit_name ''P'' i) 0 1) = 2"
    by auto
  have n3: "nat 3 = 3" by simp
  from ok a b show ?thesis by (simp add: s' n3)
qed

section \<open>Pending and running jobs have no parallel argument left\<close>

text \<open>
  The invariant \<open>started_untemplated\<close> holds when nothing is pending or running, and it
  is kept by adding the starting jobs and by every tick of \<^verbatim>\<open>workflow_loop\<close>.
\<close>

lemma started_untemplated_iff:
  "started_untemplated s \<longleftrightarrow>
     (\<forall>k \<in> fst ` set (pending_jobs s) \<union> fst ` set (running_jobs s). untemplated (jobs_graph s) k)"
  by (auto simp: started_untemplated_def list_all_iff)

lemma adds_untemplated_refl: "adds_untemplated s s"
  by (simp add: adds_untemplated_def)

lemma adds_untemplated_trans:
  "adds_untemplated s t \<Longrightarrow> adds_untemplated t u \<Longrightarrow> adds_untemplated s u"
  unfolding adds_untemplated_def by metis

lemma adds_untemplated_started:
  "adds_untemplated s s' \<Longrightarrow> started_untemplated s \<Longrightarrow> started_untemplated s'"
  unfolding adds_untemplated_def started_untemplated_iff by (metis Un_iff)

lemma untemplated_map_entry:
  "(\<And>c. parallel_arg (f c) = parallel_arg c) \<Longrightarrow> untemplated g k \<Longrightarrow>
   untemplated (AList.map_entry k' f g) k"
  by (auto simp: untemplated_def map_of_map_entry split: option.splits)

lemma untemplated_clear:
  "untemplated g k \<Longrightarrow> untemplated (AList.map_entry k' (\<lambda>c. c\<lparr>parallel_arg := None\<rparr>) g) k"
  by (auto simp: untemplated_def map_of_map_entry split: option.splits)

lemma untemplated_cleared:
  "untemplated (AList.map_entry k (\<lambda>c. c\<lparr>parallel_arg := None\<rparr>) g) k"
  by (auto simp: untemplated_def map_of_map_entry split: option.splits)

lemma untemplated_update:
  "parallel_arg c = None \<Longrightarrow> untemplated g k \<Longrightarrow> untemplated (AList.update k' c g) k"
  by (auto simp: untemplated_def update_conv' split: option.splits)

lemma untemplated_updated:
  "parallel_arg c = None \<Longrightarrow> untemplated (AList.update k c g) k"
  by (simp add: untemplated_def update_conv')

lemma untemplated_delete:
  "untemplated g k \<Longrightarrow> untemplated (AList.delete k' g) k"
  by (auto simp: untemplated_def delete_conv' split: option.splits)

lemma wait_in_units_adds:
  "wait_in_units job job_unit us t = Inr t' \<Longrightarrow>
   (\<forall>k. untemplated (jobs_graph t) k \<longrightarrow> untemplated (jobs_graph t') k)
   \<and> fst ` set (pending_jobs t') = fst ` set (pending_jobs t)
   \<and> running_jobs t' = running_jobs t"
proof (induction job job_unit us t rule: wait_in_units.induct)
  case (1 job job_unit s)
  then show ?case by simp
next
  case (2 job job_unit i rest s)
  then show ?case
    by (auto simp: Let_def untemplated_map_entry dom_map_entry split: option.splits)
qed

lemma detach_successor_adds:
  "detach_successor job job_unit n nextjob t = Inr t' \<Longrightarrow>
   (\<forall>k. untemplated (jobs_graph t) k \<longrightarrow> untemplated (jobs_graph t') k)
   \<and> fst ` set (pending_jobs t') = fst ` set (pending_jobs t)
   \<and> running_jobs t' = running_jobs t"
proof -
  assume a: "detach_successor job job_unit n nextjob t = Inr t'"
  show ?thesis
  proof (cases "nextjob = ''retry''")
    case True
    with a show ?thesis by (simp add: detach_successor_def)
  next
    case False
    show ?thesis
    proof (cases "nextjob \<in> fst ` set (jobs_graph t)")
      case True
      with a False have "t' = t\<lparr>jobs_graph :=
                  AList.map_entry nextjob
                    (\<lambda>c. c\<lparr>wait_for := Some ((case wait_for c of None \<Rightarrow> [] | Some l \<Rightarrow> l) @ [job_unit])\<rparr>)
                    (jobs_graph t),
                pending_jobs :=
                  AList.map_entry nextjob
                    (\<lambda>p. p\<lparr>pj_wait_for := insert job_unit (pj_wait_for p)\<rparr>) (pending_jobs t)\<rparr>"
        by (simp add: detach_successor_def)
      then show ?thesis by (simp add: untemplated_map_entry dom_map_entry)
    next
      case no: False
      with a False have "wait_in_units job job_unit [0..<n] t = Inr t'"
        by (simp add: detach_successor_def)
      then show ?thesis by (rule wait_in_units_adds)
    qed
  qed
qed

lemma detach_all_adds:
  "foldE (detach_successor job job_unit n) nextjobs t = Inr t' \<Longrightarrow>
   (\<forall>k. untemplated (jobs_graph t) k \<longrightarrow> untemplated (jobs_graph t') k)
   \<and> fst ` set (pending_jobs t') = fst ` set (pending_jobs t)
   \<and> running_jobs t' = running_jobs t"
proof (induction nextjobs arbitrary: t)
  case Nil
  then show ?case by simp
next
  case (Cons x xs)
  from Cons.prems obtain t1 where t1: "detach_successor job job_unit n x t = Inr t1"
    and r: "foldE (detach_successor job job_unit n) xs t1 = Inr t'"
    by (cases "detach_successor job job_unit n x t") simp_all
  from detach_successor_adds[OF t1] Cons.IH[OF r] show ?case by simp
qed

lemma unit_conf_template: "parallel_arg (unit_conf base n tpl i) = parallel_arg base"
  by (simp add: unit_conf_def Let_def)

lemma expand_units_adds:
  "expand_units job base n tpl wfa r us t = Inr t' \<Longrightarrow> parallel_arg base = None \<Longrightarrow>
   (\<forall>k. untemplated (jobs_graph t) k \<longrightarrow> untemplated (jobs_graph t') k)
   \<and> (\<forall>i\<in>set us. untemplated (jobs_graph t') (unit_name job i))
   \<and> fst ` set (pending_jobs t') \<subseteq> fst ` set (pending_jobs t) \<union> unit_name job ` set us
   \<and> running_jobs t' = running_jobs t"
proof (induction us arbitrary: t)
  case Nil
  then show ?case by simp
next
  case (Cons i rest)
  from Cons.prems(1) obtain t1 where
    t1: "(if i \<noteq> 0 then foldE (detach_successor job (unit_name job i) (nat n))
              (concat (map snd (on_finish base))) t else Inr t) = Inr t1"
    by (auto simp: Let_def split: sum.splits)
  let ?t2 = "t1\<lparr>jobs_graph := AList.update (unit_name job i) (unit_conf base n tpl i) (jobs_graph t1),
                pending_jobs :=
                  AList.update (unit_name job i)
                    \<lparr>pj_wait_for = set wfa, pj_retries = r,
                     pj_required_resources = required_resources (unit_conf base n tpl i),
                     pj_origin = Some job, pj_wait_time = wait_time base\<rparr>
                    (pending_jobs t1)\<rparr>"
  from Cons.prems(1) t1 have rest: "expand_units job base n tpl wfa r rest ?t2 = Inr t'"
    by (auto simp: Let_def split: sum.splits if_splits)
  have step: "(\<forall>k. untemplated (jobs_graph t) k \<longrightarrow> untemplated (jobs_graph t1) k)
      \<and> fst ` set (pending_jobs t1) = fst ` set (pending_jobs t)
      \<and> running_jobs t1 = running_jobs t"
  proof (cases "i = 0")
    case True
    with t1 show ?thesis by simp
  next
    case False
    with t1 show ?thesis by (simp add: detach_all_adds)
  qed
  have c: "parallel_arg (unit_conf base n tpl i) = None"
    using Cons.prems(2) by (simp add: unit_conf_template)
  have keep: "untemplated (jobs_graph t) k \<Longrightarrow> untemplated (jobs_graph ?t2) k" for k
    using step c by (simp add: untemplated_update)
  have unit: "untemplated (jobs_graph ?t2) (unit_name job i)"
    using c by (simp add: untemplated_updated)
  have keys: "fst ` set (pending_jobs ?t2) = insert (unit_name job i) (fst ` set (pending_jobs t))"
    using step by (simp add: dom_update)
  have run: "running_jobs ?t2 = running_jobs t"
    using step by simp
  note ih = Cons.IH[OF rest Cons.prems(2)]
  from ih keep have a: "\<forall>k. untemplated (jobs_graph t) k \<longrightarrow> untemplated (jobs_graph t') k"
    by blast
  from ih unit have b: "\<forall>i'\<in>set (i # rest). untemplated (jobs_graph t') (unit_name job i')"
    by auto
  from ih keys have d: "fst ` set (pending_jobs t') \<subseteq> fst ` set (pending_jobs t) \<union> unit_name job ` set (i # rest)"
    by auto
  from ih run have e: "running_jobs t' = running_jobs t" by simp
  from a b d e show ?case by (intro conjI)
qed

lemma relink_adds:
  "(\<forall>k. untemplated (jobs_graph t) k \<longrightarrow> untemplated (jobs_graph (relink job n other t)) k)
   \<and> fst ` set (pending_jobs (relink job n other t)) = fst ` set (pending_jobs t)
   \<and> running_jobs (relink job n other t) = running_jobs t"
  by (auto simp: relink_def untemplated_map_entry dom_map_entry split: option.splits)

lemma fold_relink_adds:
  "(\<forall>k. untemplated (jobs_graph t) k \<longrightarrow> untemplated (jobs_graph (fold (relink job n) others t)) k)
   \<and> fst ` set (pending_jobs (fold (relink job n) others t)) = fst ` set (pending_jobs t)
   \<and> running_jobs (fold (relink job n) others t) = running_jobs t"
proof (induction others arbitrary: t)
  case Nil
  then show ?case by simp
next
  case (Cons x xs)
  from Cons[of "relink job n x t"] relink_adds[of t job n x] show ?case by simp
qed

lemma add_pending_job_plain:
  assumes "map_of (jobs_graph s) job = Some conf"
    and "parallel_arg conf = None \<or> parallel_arg conf = Some []"
  shows "add_pending_job job wfa r s =
           Inr (s\<lparr>jobs_graph := AList.map_entry job (\<lambda>c. c\<lparr>parallel_arg := None\<rparr>) (jobs_graph s),
                  pending_jobs :=
                    AList.update job
                      \<lparr>pj_wait_for = set wfa, pj_retries = r,
                       pj_required_resources = required_resources conf,
                       pj_origin = None, pj_wait_time = wait_time conf\<rparr>
                      (pending_jobs s)\<rparr>)"
  using assms by (auto simp: add_pending_job_def)

lemma add_pending_job_fan_out:
  assumes "map_of (jobs_graph s) job = Some conf"
    and "parallel_arg conf = Some (c # cs)"
  shows "add_pending_job job wfa r s =
           (case parallelization s of
              None \<Rightarrow> Inl TypeError
            | Some n \<Rightarrow>
                (case expand_units job (conf\<lparr>parallel_arg := None\<rparr>) n (c # cs) wfa r [0..<nat n]
                        (s\<lparr>jobs_graph := AList.delete job
                             (AList.map_entry job (\<lambda>c. c\<lparr>parallel_arg := None\<rparr>) (jobs_graph s))\<rparr>) of
                   Inl e \<Rightarrow> Inl e
                 | Inr s3 \<Rightarrow> Inr (fold (relink job (nat n)) (map fst (jobs_graph s3)) s3)))"
  using assms by (simp add: add_pending_job_def Let_def cong: option.case_cong)

lemma add_pending_job_adds:
  assumes "add_pending_job job wfa r s = Inr s'"
  shows "adds_untemplated s s'"
proof -
  from assms obtain conf where conf: "map_of (jobs_graph s) job = Some conf"
    by (cases "map_of (jobs_graph s) job") (simp_all add: add_pending_job_def)
  let ?g1 = "AList.map_entry job (\<lambda>c. c\<lparr>parallel_arg := None\<rparr>) (jobs_graph s)"
  show ?thesis
  proof (cases "\<exists>c cs. parallel_arg conf = Some (c # cs)")
    case False
    then have "parallel_arg conf = None \<or> parallel_arg conf = Some []"
    proof (cases "parallel_arg conf")
      case None
      then show ?thesis by simp
    next
      case (Some a)
      with False show ?thesis by (cases a) simp_all
    qed
    from add_pending_job_plain[OF conf this, of wfa r] assms
    have s': "s' = s\<lparr>jobs_graph := ?g1,
        pending_jobs := AList.update job
          \<lparr>pj_wait_for = set wfa, pj_retries = r, pj_required_resources = required_resources conf,
           pj_origin = None, pj_wait_time = wait_time conf\<rparr> (pending_jobs s)\<rparr>"
      by simp
    have a: "\<forall>k. untemplated (jobs_graph s) k \<longrightarrow> untemplated (jobs_graph s') k"
      by (simp add: s' untemplated_clear)
    have b: "\<forall>k\<in>fst ` set (pending_jobs s'). k \<in> fst ` set (pending_jobs s) \<or> untemplated (jobs_graph s') k"
      by (simp add: s' dom_update untemplated_cleared)
    have d: "running_jobs s' = running_jobs s" by (simp add: s')
    from a b d show ?thesis unfolding adds_untemplated_def by (intro conjI)
  next
    case True
    then obtain c cs where tpl: "parallel_arg conf = Some (c # cs)" by blast
    let ?s2 = "s\<lparr>jobs_graph := AList.delete job ?g1\<rparr>"
    note unfolded = add_pending_job_fan_out[OF conf tpl, of wfa r]
    from assms unfolded obtain n where n: "parallelization s = Some n"
      by (cases "parallelization s") simp_all
    from assms unfolded n obtain s3 where
      s3: "expand_units job (conf\<lparr>parallel_arg := None\<rparr>) n (c # cs) wfa r [0..<nat n] ?s2 = Inr s3"
      and s': "s' = fold (relink job (nat n)) (map fst (jobs_graph s3)) s3"
      by (cases "expand_units job (conf\<lparr>parallel_arg := None\<rparr>) n (c # cs) wfa r [0..<nat n] ?s2")
         simp_all
    have base: "parallel_arg (conf\<lparr>parallel_arg := None\<rparr>) = None" by simp
    note e = expand_units_adds[OF s3 base]
    note f = fold_relink_adds[of s3 job "nat n" "map fst (jobs_graph s3)"]
    have a: "\<forall>k. untemplated (jobs_graph s) k \<longrightarrow> untemplated (jobs_graph s') k"
    proof (intro allI impI)
      fix k assume "untemplated (jobs_graph s) k"
      then have "untemplated (jobs_graph ?s2) k"
        by (simp add: untemplated_clear untemplated_delete)
      with e have "untemplated (jobs_graph s3) k" by blast
      with f show "untemplated (jobs_graph s') k" unfolding s' by blast
    qed
    have b: "\<forall>k\<in>fst ` set (pending_jobs s'). k \<in> fst ` set (pending_jobs s) \<or> untemplated (jobs_graph s') k"
    proof
      fix k assume "k \<in> fst ` set (pending_jobs s')"
      with f have "k \<in> fst ` set (pending_jobs s3)" unfolding s' by simp
      moreover from e have "fst ` set (pending_jobs s3)
          \<subseteq> fst ` set (pending_jobs ?s2) \<union> unit_name job ` set [0..<nat n]" by blast
      ultimately have "k \<in> fst ` set (pending_jobs s) \<or> k \<in> unit_name job ` set [0..<nat n]"
        by auto
      then show "k \<in> fst ` set (pending_jobs s) \<or> untemplated (jobs_graph s') k"
      proof
        assume "k \<in> fst ` set (pending_jobs s)"
        then show ?thesis by simp
      next
        assume "k \<in> unit_name job ` set [0..<nat n]"
        with e have "untemplated (jobs_graph s3) k" by blast
        with f show ?thesis unfolding s' by blast
      qed
    qed
    from e have "running_jobs s3 = running_jobs ?s2" by blast
    with f have d: "running_jobs s' = running_jobs s" unfolding s' by simp
    from a b d show ?thesis unfolding adds_untemplated_def by (intro conjI)
  qed
qed

lemma keys_delete: "fst ` set (AList.delete k al) = fst ` set al - {k}"
  by (induction al) auto

lemma started_untemplated_mono:
  assumes "started_untemplated s"
    and "\<And>k. untemplated (jobs_graph s) k \<Longrightarrow> untemplated (jobs_graph s') k"
    and "fst ` set (pending_jobs s') \<union> fst ` set (running_jobs s')
           \<subseteq> fst ` set (pending_jobs s) \<union> fst ` set (running_jobs s)"
  shows "started_untemplated s'"
  unfolding started_untemplated_iff
proof
  fix k assume "k \<in> fst ` set (pending_jobs s') \<union> fst ` set (running_jobs s')"
  with assms(3) have "k \<in> fst ` set (pending_jobs s) \<union> fst ` set (running_jobs s)" by (rule subsetD)
  with assms(1) have "untemplated (jobs_graph s) k" unfolding started_untemplated_iff by (rule bspec)
  then show "untemplated (jobs_graph s') k" by (rule assms(2))
qed

lemma follow_successor_adds:
  assumes "follow_successor job nextjob s = Inr s'"
  shows "adds_untemplated s s'"
proof (cases "nextjob = ''retry''")
  case True
  from assms True obtain jobconf where jc: "map_of (jobs_graph s) job = Some jobconf"
    by (cases "map_of (jobs_graph s) job") (simp_all add: follow_successor_def)
  show ?thesis
  proof (cases "0 < retries jobconf")
    case False
    with assms True jc have "s' = s" by (simp add: follow_successor_def)
    then show ?thesis by (simp add: adds_untemplated_refl)
  next
    case pos: True
    with assms True jc obtain t where t: "add_pending_job job [] 1 s = Inr t"
      and s': "s' = t\<lparr>jobs_graph := AList.map_entry job (\<lambda>c. c\<lparr>retries := retries c - 1\<rparr>) (jobs_graph t)\<rparr>"
      by (cases "add_pending_job job [] 1 s") (simp_all add: follow_successor_def)
    have "adds_untemplated t s'"
      unfolding adds_untemplated_def s' by (simp add: untemplated_map_entry)
    with add_pending_job_adds[OF t] show ?thesis by (rule adds_untemplated_trans)
  qed
next
  case False
  show ?thesis
  proof (cases "nextjob \<in> fst ` set (pending_jobs s)")
    case True
    with assms False have "s' = s" by (simp add: follow_successor_def)
    then show ?thesis by (simp add: adds_untemplated_refl)
  next
    case np: False
    with assms False obtain conf where "map_of (jobs_graph s) nextjob = Some conf"
      and "add_pending_job nextjob (case wait_for conf of None \<Rightarrow> [] | Some l \<Rightarrow> l) 0 s = Inr s'"
      by (cases "map_of (jobs_graph s) nextjob") (simp_all add: follow_successor_def)
    then show ?thesis by (simp add: add_pending_job_adds)
  qed
qed

lemma follow_all_adds:
  "foldE (follow_successor job) nextjobs s = Inr s' \<Longrightarrow> adds_untemplated s s'"
proof (induction nextjobs arbitrary: s)
  case Nil
  then show ?case by (simp add: adds_untemplated_refl)
next
  case (Cons x xs)
  from Cons.prems obtain t where t: "follow_successor job x s = Inr t"
    and r: "foldE (follow_successor job) xs t = Inr s'"
    by (cases "follow_successor job x s") simp_all
  from follow_successor_adds[OF t] Cons.IH[OF r] show ?case by (rule adds_untemplated_trans)
qed

lemma release_one_frame:
  "release_one job res_name s = Inr s' \<Longrightarrow>
   jobs_graph s' = jobs_graph s \<and> pending_jobs s' = pending_jobs s \<and> running_jobs s' = running_jobs s"
  by (auto simp: release_one_def Let_def split: if_splits option.splits prod.splits)

lemma release_resources_frame:
  "release_resources job s = Inr s' \<Longrightarrow>
   jobs_graph s' = jobs_graph s \<and> pending_jobs s' = pending_jobs s \<and> running_jobs s' = running_jobs s"
  unfolding release_resources_def
  using foldE_preserves[where P = "\<lambda>t. (jobs_graph t, pending_jobs t, running_jobs t)"
      and f = "release_one job" and xs = "map fst (acquired_resources s)" and s = s and s' = s']
  by (auto dest: release_one_frame)

lemma try_sets_frame:
  "try_sets job result sets s = Inr (ok, s') \<Longrightarrow>
   jobs_graph s' = jobs_graph s \<and> pending_jobs s' = pending_jobs s \<and> running_jobs s' = running_jobs s"
proof (induction sets arbitrary: result)
  case Nil
  then show ?case by simp
next
  case (Cons rs sets)
  show ?case
  proof (cases "sufficient (available_resources s) rs")
    case (Inl e)
    with Cons.prems show ?thesis by simp
  next
    case (Inr b)
    show ?thesis
    proof (cases b)
      case True
      with Inr Cons.prems have "s' = take_resources job rs s" by simp
      then show ?thesis by (simp add: take_resources_frame)
    next
      case False
      with Inr Cons.prems have "try_sets job False sets s = Inr (ok, s')" by simp
      then show ?thesis by (rule Cons.IH)
    qed
  qed
qed

lemma try_acquire_frame:
  "try_acquire_resources job s = Inr (ok, s') \<Longrightarrow>
   jobs_graph s' = jobs_graph s \<and> pending_jobs s' = pending_jobs s \<and> running_jobs s' = running_jobs s"
  by (cases "map_of (jobs_graph s) job") (simp_all add: try_acquire_resources_def try_sets_frame)

lemma untemplated_map_values:
  "(\<And>c. parallel_arg (f c) = parallel_arg c) \<Longrightarrow>
   untemplated (map (\<lambda>entry. (fst entry, f (snd entry))) g) k = untemplated g k"
  by (induction g) (auto simp: untemplated_def)

lemma started_untemplated_cong:
  "jobs_graph s' = jobs_graph s \<Longrightarrow> pending_jobs s' = pending_jobs s \<Longrightarrow>
   running_jobs s' = running_jobs s \<Longrightarrow> started_untemplated s' = started_untemplated s"
  by (simp add: started_untemplated_def)

lemma finish_job_started:
  assumes "finish_job job outcome s = Inr s'" and "started_untemplated s"
  shows "started_untemplated s'"
proof -
  let ?s1 = "s\<lparr>pending_jobs :=
                   map (\<lambda>entry. (fst entry, (snd entry)\<lparr>pj_wait_for := pj_wait_for (snd entry) - {job}\<rparr>))
                     (pending_jobs s),
                 jobs_graph :=
                   map (\<lambda>entry. (fst entry, (snd entry)\<lparr>wait_for := map_option (remove1 job) (wait_for (snd entry))\<rparr>))
                     (jobs_graph s)\<rparr>"
  have unfolded: "finish_job job outcome s =
      (case get_next_jobs job outcome ?s1 of
           Inl e \<Rightarrow> Inl e
         | Inr nextjobs \<Rightarrow>
             (case foldE (follow_successor job) nextjobs ?s1 of
                Inl e \<Rightarrow> Inl e
              | Inr s2 \<Rightarrow>
                  (case release_resources job s2 of
                     Inl e \<Rightarrow> Inl e
                   | Inr s3 \<Rightarrow> Inr (s3\<lparr>running_jobs := AList.delete job (running_jobs s3)\<rparr>))))"
    unfolding finish_job_def Let_def ..
  from assms(1) obtain nextjobs where nj: "get_next_jobs job outcome ?s1 = Inr nextjobs"
    unfolding unfolded by (cases "get_next_jobs job outcome ?s1") simp_all
  from assms(1) have a2: "(case foldE (follow_successor job) nextjobs ?s1 of
                Inl e \<Rightarrow> Inl e
              | Inr s2 \<Rightarrow>
                  (case release_resources job s2 of
                     Inl e \<Rightarrow> Inl e
                   | Inr s3 \<Rightarrow> Inr (s3\<lparr>running_jobs := AList.delete job (running_jobs s3)\<rparr>))) = Inr s'"
    unfolding unfolded by (simp add: nj)
  then obtain s2 where s2: "foldE (follow_successor job) nextjobs ?s1 = Inr s2"
    by (cases "foldE (follow_successor job) nextjobs ?s1") simp_all
  from a2 have a3: "(case release_resources job s2 of
                     Inl e \<Rightarrow> Inl e
                   | Inr s3 \<Rightarrow> Inr (s3\<lparr>running_jobs := AList.delete job (running_jobs s3)\<rparr>)) = Inr s'"
    by (simp add: s2)
  then obtain s3 where s3: "release_resources job s2 = Inr s3"
    and s': "s' = s3\<lparr>running_jobs := AList.delete job (running_jobs s3)\<rparr>"
    by (cases "release_resources job s2") auto
  have "started_untemplated ?s1"
    using assms(2)
  proof (rule started_untemplated_mono)
    fix k assume "untemplated (jobs_graph s) k"
    then have "untemplated (map (\<lambda>entry. (fst entry, (snd entry)\<lparr>wait_for := map_option (remove1 job) (wait_for (snd entry))\<rparr>))
                     (jobs_graph s)) k"
      using untemplated_map_values[of "\<lambda>c. c\<lparr>wait_for := map_option (remove1 job) (wait_for c)\<rparr>" "jobs_graph s" k]
      by simp
    then show "untemplated (jobs_graph ?s1) k" by simp
  next
    show "fst ` set (pending_jobs ?s1) \<union> fst ` set (running_jobs ?s1)
           \<subseteq> fst ` set (pending_jobs s) \<union> fst ` set (running_jobs s)"
      by (simp add: image_image)
  qed
  with follow_all_adds[OF s2] have "started_untemplated s2" by (rule adds_untemplated_started)
  moreover from release_resources_frame[OF s3]
  have "started_untemplated s3 = started_untemplated s2"
    by (intro started_untemplated_cong) simp_all
  ultimately have "started_untemplated s3" by simp
  then show ?thesis
  proof (rule started_untemplated_mono)
    show "untemplated (jobs_graph s3) k \<Longrightarrow> untemplated (jobs_graph s') k" for k
      by (simp add: s')
    have "fst ` set (running_jobs s') \<subseteq> fst ` set (running_jobs s3)"
      by (simp add: s' keys_delete)
    moreover have "pending_jobs s' = pending_jobs s3" by (simp add: s')
    ultimately show "fst ` set (pending_jobs s') \<union> fst ` set (running_jobs s')
           \<subseteq> fst ` set (pending_jobs s3) \<union> fst ` set (running_jobs s3)"
      by (simp add: le_supI2)
  qed
qed

lemma check_each_started:
  "check_each B running s = Inr s' \<Longrightarrow> started_untemplated s \<Longrightarrow> started_untemplated s'"
proof (induction B running s rule: check_each.induct)
  case (1 B s)
  then show ?case by simp
next
  case (2 B job jobid rest s)
  obtain outcome w where f: "is_finished B (world s) jobid = (outcome, w)"
    by (cases "is_finished B (world s) jobid")
  have w: "started_untemplated (s\<lparr>world := w\<rparr>)"
    using 2(4) by (simp add: started_untemplated_def)
  show ?case
  proof (cases outcome)
    case None
    with 2(3) f have "check_each B rest (s\<lparr>world := w\<rparr>) = Inr s'" by simp
    from 2(1)[OF f[symmetric] None this w] show ?thesis .
  next
    case (Some oc)
    with 2(3) f obtain t where t: "finish_job job oc (s\<lparr>world := w\<rparr>) = Inr t"
      and r: "check_each B rest t = Inr s'"
      by (cases "finish_job job oc (s\<lparr>world := w\<rparr>)") simp_all
    from finish_job_started[OF t w] have "started_untemplated t" .
    from 2(2)[OF f[symmetric] Some t r this] show ?thesis .
  qed
qed

lemma start_job_started:
  assumes "start_job B job conf s = Inr s'" and "started_untemplated s"
    and "job \<in> fst ` set (pending_jobs s)"
  shows "started_untemplated s'"
proof -
  from assms(1) obtain jobid t where rj: "run_job B job (pj_retries conf) s = (Inr jobid, t)"
    and s': "s' = t\<lparr>pending_jobs := AList.delete job (pending_jobs t),
                     running_jobs := AList.update job jobid (running_jobs t)\<rparr>"
    by (cases "run_job B job (pj_retries conf) s")
       (auto simp: start_job_def start_attempt_def moved_to_running_def
             split: sum.splits prod.splits option.splits)
  have frame: "jobs_graph t = jobs_graph s \<and> pending_jobs t = pending_jobs s
      \<and> running_jobs t = running_jobs s"
    by (subst run_job_frame[OF rj], simp)+
  from assms(2) show ?thesis
  proof (rule started_untemplated_mono)
    show "untemplated (jobs_graph s) k \<Longrightarrow> untemplated (jobs_graph s') k" for k
      using frame by (simp add: s')
    show "fst ` set (pending_jobs s') \<union> fst ` set (running_jobs s')
           \<subseteq> fst ` set (pending_jobs s) \<union> fst ` set (running_jobs s)"
      using frame assms(3) by (auto simp: s' keys_delete dom_update)
  qed
qed

lemma must_wait_time_core:
  "must_wait_time B pj s = (b, s') \<Longrightarrow>
   jobs_graph s' = jobs_graph s \<and> pending_jobs s' = pending_jobs s \<and> running_jobs s' = running_jobs s"
  by (auto simp: must_wait_time_def split: option.splits prod.splits)

lemma can_run_now_frame:
  assumes "can_run_now B job conf s = Inr (ok, s')"
  shows "jobs_graph s' = jobs_graph s \<and> pending_jobs s' = pending_jobs s \<and> running_jobs s' = running_jobs s"
proof (cases "pj_wait_for conf = {}")
  case False
  with assms show ?thesis by (simp add: can_run_now_def)
next
  case True
  obtain b s1 where m: "must_wait_time B conf s = (b, s1)"
    by (cases "must_wait_time B conf s")
  note f1 = must_wait_time_core[OF m]
  show ?thesis
  proof (cases b)
    case True
    with assms \<open>pj_wait_for conf = {}\<close> m have "s' = s1" by (simp add: can_run_now_def)
    with f1 show ?thesis by simp
  next
    case False
    with assms \<open>pj_wait_for conf = {}\<close> m have "try_acquire_resources job s1 = Inr (ok, s')"
      by (simp add: can_run_now_def)
    from try_acquire_frame[OF this] f1 show ?thesis by simp
  qed
qed

lemma can_skip_unknown_frame:
  assumes "can_skip_unknown origin_job job conf s = Inr (ok, s')"
  shows "jobs_graph s' = jobs_graph s \<and> pending_jobs s' = pending_jobs s \<and> running_jobs s' = running_jobs s"
proof (cases "pj_wait_for conf \<inter> fst ` set (pending_jobs s) = {}
         \<and> (no_origin origin_job \<or> pj_origin conf = origin_job)")
  case True
  with assms have "try_acquire_resources job s = Inr (ok, s')"
    by (simp add: can_skip_unknown_def)
  then show ?thesis by (rule try_acquire_frame)
next
  case False
  with assms have "s' = s" by (auto simp: can_skip_unknown_def)
  then show ?thesis by simp
qed

lemma normal_pass_started:
  "normal_pass B jobs s = Inr s' \<Longrightarrow> started_untemplated s \<Longrightarrow> started_untemplated s'"
proof (induction jobs arbitrary: s)
  case Nil
  then show ?case by simp
next
  case (Cons job rest)
  show ?case
  proof (cases "at_max_running s")
    case True
    with Cons.prems show ?thesis by simp
  next
    case False
    with Cons.prems(1) obtain conf where conf: "map_of (pending_jobs s) job = Some conf"
      by (cases "map_of (pending_jobs s) job") simp_all
    with Cons.prems(1) False obtain ok s1 where c: "can_run_now B job conf s = Inr (ok, s1)"
      by (cases "can_run_now B job conf s") auto
    note f = can_run_now_frame[OF c]
    from f have "started_untemplated s1 = started_untemplated s"
      by (intro started_untemplated_cong) simp_all
    with Cons.prems(2) have i1: "started_untemplated s1" by simp
    show ?thesis
    proof (cases ok)
      case no: False
      with Cons.prems(1) False conf c have "normal_pass B rest s1 = Inr s'" by simp
      from Cons.IH[OF this i1] show ?thesis .
    next
      case True
      with Cons.prems(1) False conf c obtain s2 where st: "start_job B job conf s1 = Inr s2"
        and r: "normal_pass B rest s2 = Inr s'"
        by (cases "start_job B job conf s1") simp_all
      from conf f have "job \<in> fst ` set (pending_jobs s1)"
        by (metis domI dom_map_of_conv_image_fst)
      from start_job_started[OF st i1 this] have "started_untemplated s2" .
      from Cons.IH[OF r this] show ?thesis .
    qed
  qed
qed

lemma skip_unknown_pass_started:
  "skip_unknown_pass B origin_job jobs s = Inr s' \<Longrightarrow> started_untemplated s \<Longrightarrow>
   started_untemplated s'"
proof (induction jobs arbitrary: s origin_job)
  case Nil
  then show ?case by simp
next
  case (Cons job rest)
  show ?case
  proof (cases "at_max_running s")
    case True
    with Cons.prems show ?thesis by simp
  next
    case False
    with Cons.prems(1) obtain conf where conf: "map_of (pending_jobs s) job = Some conf"
      by (cases "map_of (pending_jobs s) job") simp_all
    with Cons.prems(1) False obtain ok s1 where c: "can_skip_unknown origin_job job conf s = Inr (ok, s1)"
      by (cases "can_skip_unknown origin_job job conf s") auto
    note f = can_skip_unknown_frame[OF c]
    from f have "started_untemplated s1 = started_untemplated s"
      by (intro started_untemplated_cong) simp_all
    with Cons.prems(2) have i1: "started_untemplated s1" by simp
    from Cons.prems(1) False conf c obtain s2 where
      st: "(if ok then start_job B job conf s1 else Inr s1) = Inr s2"
      and r: "(if no_origin (pj_origin conf) \<and> running_jobs s2 \<noteq> [] then Inr s2
               else skip_unknown_pass B (pj_origin conf) rest s2) = Inr s'"
      by (cases "if ok then start_job B job conf s1 else Inr s1") simp_all
    have i2: "started_untemplated s2"
    proof (cases ok)
      case False
      with st i1 show ?thesis by simp
    next
      case True
      with st have st': "start_job B job conf s1 = Inr s2" by simp
      from conf f have "job \<in> fst ` set (pending_jobs s1)"
        by (metis domI dom_map_of_conv_image_fst)
      from start_job_started[OF st' i1 this] show ?thesis .
    qed
    show ?thesis
    proof (cases "no_origin (pj_origin conf) \<and> running_jobs s2 \<noteq> []")
      case True
      with r have "s' = s2" by simp
      with i2 show ?thesis by simp
    next
      case False
      with r have "skip_unknown_pass B (pj_origin conf) rest s2 = Inr s'" by simp
      from Cons.IH[OF this i2] show ?thesis .
    qed
  qed
qed

lemma run_pending_jobs_started:
  assumes "run_pending_jobs B s = Inr s'" and "started_untemplated s"
  shows "started_untemplated s'"
proof -
  from assms(1) obtain s1 where n: "normal_pass B (sort (map fst (pending_jobs s))) s = Inr s1"
    by (cases "normal_pass B (sort (map fst (pending_jobs s))) s") (simp_all add: run_pending_jobs_def)
  from normal_pass_started[OF n assms(2)] have i1: "started_untemplated s1" .
  show ?thesis
  proof (cases "done_after_normal_pass s1")
    case True
    with assms(1) n have "s' = s1" by (simp add: run_pending_jobs_def)
    with i1 show ?thesis by simp
  next
    case False
    with assms(1) n have m: "skip_unknown_mode B s1 = Inr s'" by (simp add: run_pending_jobs_def)
    then obtain s2 where p: "skip_unknown_pass B None (sort (map fst (pending_jobs s1))) s1 = Inr s2"
      by (cases "skip_unknown_pass B None (sort (map fst (pending_jobs s1))) s1")
         (simp_all add: skip_unknown_mode_def)
    with m have "s' = s2" by (auto simp: skip_unknown_mode_def split: if_splits)
    with skip_unknown_pass_started[OF p i1] show ?thesis by simp
  qed
qed

lemma workflow_loop_started:
  assumes "workflow_loop B s = Inr (again, s')" and "started_untemplated s"
  shows "started_untemplated s'"
proof -
  from assms(1) obtain s1 where c: "check_running_jobs B s = Inr s1"
    by (cases "check_running_jobs B s") (simp_all add: workflow_loop_def)
  then have "started_untemplated s1"
    using assms(2) by (simp add: check_running_jobs_def check_each_started)
  show ?thesis
  proof (cases "pending_jobs s1 \<noteq> []")
    case True
    with assms(1) c obtain s2 where "run_pending_jobs B s1 = Inr s2" and "s' = s2"
      by (cases "run_pending_jobs B s1") (auto simp: workflow_loop_def)
    with run_pending_jobs_started[OF _ \<open>started_untemplated s1\<close>] show ?thesis by simp
  next
    case False
    with assms(1) c have "s' = s1" by (auto simp: workflow_loop_def split: if_splits)
    with \<open>started_untemplated s1\<close> show ?thesis by simp
  qed
qed

lemma initial_jobs_started:
  "foldE add_initial_pending_job jobs s = Inr s' \<Longrightarrow> started_untemplated s \<Longrightarrow>
   started_untemplated s'"
proof (induction jobs arbitrary: s)
  case Nil
  then show ?case by simp
next
  case (Cons job rest)
  from Cons.prems(1) obtain t where t: "add_initial_pending_job job s = Inr t"
    and r: "foldE add_initial_pending_job rest t = Inr s'"
    by (cases "add_initial_pending_job job s") simp_all
  from t obtain wfa where "add_pending_job job wfa 0 s = Inr t"
    by (cases "map_of (jobs_graph s) job") (simp_all add: add_initial_pending_job_def)
  from add_pending_job_adds[OF this] Cons.prems(2) have "started_untemplated t"
    by (rule adds_untemplated_started)
  from Cons.IH[OF r this] show ?case .
qed

lemma started_untemplated_running:
  assumes "started_untemplated s" and "map_of (running_jobs s) job = Some jobid"
    and "map_of (jobs_graph s) job = Some conf"
  shows "parallel_arg conf = None"
proof -
  from assms(2) have "job \<in> fst ` set (running_jobs s)"
    by (metis domI dom_map_of_conv_image_fst)
  with assms(1) have "untemplated (jobs_graph s) job"
    unfolding started_untemplated_iff by simp
  with assms(3) show ?thesis by (simp add: untemplated_def)
qed

lemma started_untemplated_empty:
  "pending_jobs s = [] \<Longrightarrow> running_jobs s = [] \<Longrightarrow> started_untemplated s"
  by (simp add: started_untemplated_def)

section \<open>Claims about retries\<close>

lemma retry_step:
  assumes "started_untemplated s" and "map_of (running_jobs s) job = Some jobid"
    and "map_of (jobs_graph s) job = Some conf" and "0 < retries conf"
  shows "follow_successor job ''retry'' s =
           Inr (s\<lparr>jobs_graph :=
                    AList.map_entry job (\<lambda>c. c\<lparr>retries := retries c - 1\<rparr>)
                      (AList.map_entry job (\<lambda>c. c\<lparr>parallel_arg := None\<rparr>) (jobs_graph s)),
                  pending_jobs :=
                    AList.update job
                      \<lparr>pj_wait_for = {}, pj_retries = 1,
                       pj_required_resources = required_resources conf,
                       pj_origin = None, pj_wait_time = wait_time conf\<rparr>
                      (pending_jobs s)\<rparr>)"
proof -
  from started_untemplated_running[OF assms(1-3)]
  have "parallel_arg conf = None \<or> parallel_arg conf = Some []" by simp
  from add_pending_job_plain[OF assms(3) this, of "[]" 1] assms(3,4)
  show ?thesis by (simp add: follow_successor_def)
qed

lemma retry_step_budget:
  assumes "map_of g job = Some conf"
  shows "map_option retries
           (map_of (AList.map_entry job (\<lambda>c. c\<lparr>retries := retries c - 1\<rparr>)
                     (AList.map_entry job (\<lambda>c. c\<lparr>parallel_arg := None\<rparr>) g)) job)
         = Some (retries conf - 1)"
  using assms by (simp add: map_of_map_entry)

lemma driver_more_fuel:
  "driver B n s = Some r \<Longrightarrow> driver B (n + k) s = Some r"
proof (induction n arbitrary: s)
  case 0
  then show ?case by simp
next
  case (Suc n)
  then show ?case
    by (cases "workflow_loop B s") (auto split: bool.splits)
qed

text \<open>
  Claim C6. In a state of the invariant above, when the loop over the successors of a
  running job that finished meets \<^verbatim>\<open>'retry'\<close> and the declared task has a positive
  retry budget, the task is pending again with \<^verbatim>\<open>retries = 1\<close> and the budget of the
  declared task is one less. In the scenario, task A with a budget of 2 and
  \<^verbatim>\<open>on_finish.failed = ["retry"]\<close> is started from the starting job A on a backend that
  reports every run as failed. The first three ticks of \<^verbatim>\<open>workflow_loop\<close> each submit
  A and return True, with the budget at 2, 1 and 0; the fourth submits nothing and
  returns False, with three command lines submitted in total and nothing pending or
  running. So the driver has not ended after three ticks, and with four ticks or more it
  ends without an error.
\<close>

theorem retry_budget:
  assumes "started_untemplated s" and "map_of (running_jobs s) job = Some jobid"
    and "map_of (jobs_graph s) job = Some conf" and "0 < retries conf"
  shows "(\<exists>s'. follow_successor job ''retry'' s = Inr s'
            \<and> map_option pj_retries (map_of (pending_jobs s') job) = Some 1
            \<and> map_option retries (map_of (jobs_graph s') job) = Some (retries conf - 1))
       \<and> foldE add_initial_pending_job [''A''] (fill_available_resources retry_graph)
           = Inr (retry_graph\<lparr>pending_jobs := [(''A'', plain_pending)]\<rparr>)
       \<and> workflow_loop failing_backend (retry_graph\<lparr>pending_jobs := [(''A'', plain_pending)]\<rparr>)
           = Inr (True, retry_graph\<lparr>running_jobs := [(''A'', Some ''job0'')], world := [[''run'']]\<rparr>)
       \<and> workflow_loop failing_backend
             (retry_graph\<lparr>running_jobs := [(''A'', Some ''job0'')], world := [[''run'']]\<rparr>)
           = Inr (True, retry_graph\<lparr>jobs_graph := [(''A'', retry_conf\<lparr>retries := 1\<rparr>)],
                          running_jobs := [(''A'', Some ''job1'')],
                          world := [[''run''], [''run'']]\<rparr>)
       \<and> workflow_loop failing_backend
             (retry_graph\<lparr>jobs_graph := [(''A'', retry_conf\<lparr>retries := 1\<rparr>)],
                running_jobs := [(''A'', Some ''job1'')], world := [[''run''], [''run'']]\<rparr>)
           = Inr (True, retry_graph\<lparr>jobs_graph := [(''A'', retry_conf\<lparr>retries := 0\<rparr>)],
                          running_jobs := [(''A'', Some ''job2'')],
                          world := [[''run''], [''run''], [''run'']]\<rparr>)
       \<and> workflow_loop failing_backend
             (retry_graph\<lparr>jobs_graph := [(''A'', retry_conf\<lparr>retries := 0\<rparr>)],
                running_jobs := [(''A'', Some ''job2'')],
                world := [[''run''], [''run''], [''run'']]\<rparr>)
           = Inr (False, retry_graph\<lparr>jobs_graph := [(''A'', retry_conf\<lparr>retries := 0\<rparr>)],
                           world := [[''run''], [''run''], [''run'']]\<rparr>)
       \<and> driver failing_backend 3 (retry_graph\<lparr>pending_jobs := [(''A'', plain_pending)]\<rparr>) = None
       \<and> (\<forall>k. driver failing_backend (4 + k) (retry_graph\<lparr>pending_jobs := [(''A'', plain_pending)]\<rparr>)
              = Some (Inr (retry_graph\<lparr>jobs_graph := [(''A'', retry_conf\<lparr>retries := 0\<rparr>)],
                             world := [[''run''], [''run''], [''run'']]\<rparr>)))"
proof -
  have step: "\<exists>s'. follow_successor job ''retry'' s = Inr s'
            \<and> map_option pj_retries (map_of (pending_jobs s') job) = Some 1
            \<and> map_option retries (map_of (jobs_graph s') job) = Some (retries conf - 1)"
    using retry_step[OF assms] retry_step_budget[OF assms(3)]
    by (simp add: update_conv')
  have start: "foldE add_initial_pending_job [''A''] (fill_available_resources retry_graph)
           = Inr (retry_graph\<lparr>pending_jobs := [(''A'', plain_pending)]\<rparr>)"
    by code_simp
  have tick1: "workflow_loop failing_backend (retry_graph\<lparr>pending_jobs := [(''A'', plain_pending)]\<rparr>)
           = Inr (True, retry_graph\<lparr>running_jobs := [(''A'', Some ''job0'')], world := [[''run'']]\<rparr>)"
    by code_simp
  have tick2: "workflow_loop failing_backend
             (retry_graph\<lparr>running_jobs := [(''A'', Some ''job0'')], world := [[''run'']]\<rparr>)
           = Inr (True, retry_graph\<lparr>jobs_graph := [(''A'', retry_conf\<lparr>retries := 1\<rparr>)],
                          running_jobs := [(''A'', Some ''job1'')],
                          world := [[''run''], [''run'']]\<rparr>)"
    by code_simp
  have tick3: "workflow_loop failing_backend
             (retry_graph\<lparr>jobs_graph := [(''A'', retry_conf\<lparr>retries := 1\<rparr>)],
                running_jobs := [(''A'', Some ''job1'')], world := [[''run''], [''run'']]\<rparr>)
           = Inr (True, retry_graph\<lparr>jobs_graph := [(''A'', retry_conf\<lparr>retries := 0\<rparr>)],
                          running_jobs := [(''A'', Some ''job2'')],
                          world := [[''run''], [''run''], [''run'']]\<rparr>)"
    by code_simp
  have tick4: "workflow_loop failing_backend
             (retry_graph\<lparr>jobs_graph := [(''A'', retry_conf\<lparr>retries := 0\<rparr>)],
                running_jobs := [(''A'', Some ''job2'')],
                world := [[''run''], [''run''], [''run'']]\<rparr>)
           = Inr (False, retry_graph\<lparr>jobs_graph := [(''A'', retry_conf\<lparr>retries := 0\<rparr>)],
                           world := [[''run''], [''run''], [''run'']]\<rparr>)"
    by code_simp
  have three: "driver failing_backend 3 (retry_graph\<lparr>pending_jobs := [(''A'', plain_pending)]\<rparr>) = None"
    by code_simp
  have four: "driver failing_backend 4 (retry_graph\<lparr>pending_jobs := [(''A'', plain_pending)]\<rparr>)
              = Some (Inr (retry_graph\<lparr>jobs_graph := [(''A'', retry_conf\<lparr>retries := 0\<rparr>)],
                             world := [[''run''], [''run''], [''run'']]\<rparr>))"
    by code_simp
  from driver_more_fuel[OF four] have more:
    "\<forall>k. driver failing_backend (4 + k) (retry_graph\<lparr>pending_jobs := [(''A'', plain_pending)]\<rparr>)
              = Some (Inr (retry_graph\<lparr>jobs_graph := [(''A'', retry_conf\<lparr>retries := 0\<rparr>)],
                             world := [[''run''], [''run''], [''run'']]\<rparr>))"
    by simp
  from step start tick1 tick2 tick3 tick4 three more show ?thesis by (intro conjI)
qed

text \<open>The first failure of A, and the whole run.\<close>

theorem retry_budget_witness:
  "follow_successor ''A'' ''retry'' (retry_graph\<lparr>running_jobs := [(''A'', Some ''job0'')]\<rparr>)
     = Inr (retry_graph\<lparr>running_jobs := [(''A'', Some ''job0'')],
              jobs_graph := [(''A'', retry_conf\<lparr>retries := 1\<rparr>)],
              pending_jobs := [(''A'', plain_pending\<lparr>pj_retries := 1\<rparr>)]\<rparr>)
   \<and> driver failing_backend 4 (retry_graph\<lparr>pending_jobs := [(''A'', plain_pending)]\<rparr>)
       = Some (Inr (retry_graph\<lparr>jobs_graph := [(''A'', retry_conf\<lparr>retries := 0\<rparr>)],
                      world := [[''run''], [''run''], [''run'']]\<rparr>))"
proof -
  let ?s = "retry_graph\<lparr>running_jobs := [(''A'', Some ''job0'')]\<rparr>"
  have h0: "started_untemplated ?s" by code_simp
  have h1: "map_of (running_jobs ?s) ''A'' = Some (Some ''job0'')" by code_simp
  have h2: "map_of (jobs_graph ?s) ''A'' = Some retry_conf" by code_simp
  have h3: "0 < retries retry_conf" by code_simp
  have e: "follow_successor ''A'' ''retry'' ?s
     = Inr (retry_graph\<lparr>running_jobs := [(''A'', Some ''job0'')],
              jobs_graph := [(''A'', retry_conf\<lparr>retries := 1\<rparr>)],
              pending_jobs := [(''A'', plain_pending\<lparr>pj_retries := 1\<rparr>)]\<rparr>)"
    by code_simp
  from retry_budget[OF h0 h1 h2 h3] have
    "driver failing_backend (4 + 0) (retry_graph\<lparr>pending_jobs := [(''A'', plain_pending)]\<rparr>)
       = Some (Inr (retry_graph\<lparr>jobs_graph := [(''A'', retry_conf\<lparr>retries := 0\<rparr>)],
                      world := [[''run''], [''run''], [''run'']]\<rparr>))"
    by blast
  with e show ?thesis by simp
qed























end
